theory Spec2Isabelle
  imports Main
begin

section \<open>The reactive-state runtime of factory.ts (class ComponentSystem)\<close>

text \<open>
  The theory embeds \<^verbatim>\<open>src/artifacts/generic-type/v1/factory.ts\<close>: the class
  \<^verbatim>\<open>ComponentSystem\<close> with its registry, plugin hooks, middleware, batching, history and
  propagation over the dependents graph.

  Conventions of the embedding.
  \<^item> A \<^verbatim>\<open>Reactive\<close> is a mutable object shared by reference (the closure of its \<^verbatim>\<open>set\<close>
    captures the object, the registry holds it under its id). Objects live in a store
    \<open>heap\<close>, addressed by \<open>nat\<close>; the registry maps an id to an address.
  \<^item> An exception or a rejected promise is \<open>Inl e\<close> of a sum type.
  \<^item> Every \<^verbatim>\<open>async\<close> function is run to completion: the model gives the state after the
    awaited call has settled. Calls that the source starts together
    (\<^verbatim>\<open>Promise.all\<close> in \<^verbatim>\<open>batch\<close>) are run one after the other in the order they are
    started; how their steps interleave at each \<^verbatim>\<open>await\<close> is not modelled, and the
    statements about \<^verbatim>\<open>batch\<close> are about the number of assignments and the final values,
    which do not depend on it.
  \<^item> \<^verbatim>\<open>set\<close>, \<^verbatim>\<open>updateReactiveValue\<close> and \<^verbatim>\<open>notifyDependents\<close> call each other and need
    not return, so they take fuel: \<open>None\<close> means that the call has not returned within
    the fuel given.
  \<^item> Plugin hooks and middleware handlers are user code. They are functions of their
    arguments that return a value or throw; the field \<open>trace\<close> of the state records each
    call the engine makes to one of them, each call of a \<^verbatim>\<open>set\<close> mutator and each
    assignment of a value. The trace is an observation for the theorems, no code reads it.
    Hooks that call back into the system, and objects that a plugin registers with a
    mutator of its own, are outside the model.
\<close>

subsection \<open>Values and errors\<close>

datatype jsvalue = JUndefined | JNull | JBool bool | JNum int | JStr string

datatype jserror = Error string

datatype status = Idle | Loading | ErrorStatus | Success

subsection \<open>Reactive, ReactiveMetadata, ReactiveConfig\<close>

record reactiveMetadata =
  mtype :: string
  created :: nat
  lastUpdated :: "nat option"
  updateCount :: nat
  status :: status
  error :: "jserror option"

text \<open>
  \<open>rid\<close> is the field \<^verbatim>\<open>id\<close>, \<open>rvalue\<close> is what the accessor \<^verbatim>\<open>value()\<close> returns,
  \<open>has_set\<close> says whether the optional mutator \<^verbatim>\<open>set\<close> is present (the mutator itself is
  \<open>set_reactive\<close> below). The two \<^verbatim>\<open>Set<string>\<close> fields are lists in insertion order.
  \<open>mtype\<close> is \<^verbatim>\<open>meta.type\<close>; \<^verbatim>\<open>meta.custom\<close>, which the engine never reads or writes, is
  left out. Times are numbers read off the \<open>clock\<close> of the state.
\<close>

record reactive =
  rid :: string
  rvalue :: jsvalue
  has_set :: bool
  meta :: reactiveMetadata
  dependencies :: "string list"
  dependents :: "string list"

record reactiveConfig =
  cid :: "string option"
  ctype :: string
  initialValue :: jsvalue
  cdependencies :: "string list option"

subsection \<open>Plugin and Middleware\<close>

record errorContext =
  ec_phase :: string
  ec_type :: string

text \<open>
  A hook that is absent is \<open>None\<close>. The hooks typed \<^verbatim>\<open>void\<close> return \<open>unit\<close>;
  \<^verbatim>\<open>runPluginHook\<close> threads their result (\<^verbatim>\<open>undefined\<close>) to the next plugin, so their
  argument is optional.
\<close>

record plugin =
  pname :: string
  p_beforeCreate :: "(reactiveConfig \<Rightarrow> jserror + reactiveConfig) option"
  p_afterCreate :: "(reactive option \<Rightarrow> jserror + unit) option"
  p_beforeUpdate :: "(jsvalue \<Rightarrow> jsvalue \<Rightarrow> jserror + jsvalue) option"
  p_afterUpdate :: "(jsvalue \<Rightarrow> jserror + unit) option"
  p_beforeDestroy :: "(reactive option \<Rightarrow> jserror + unit) option"
  p_handleError :: "(jserror \<Rightarrow> errorContext \<Rightarrow> jserror + unit) option"

record middlewareContext =
  mc_reactive :: reactive
  mc_phase :: string
  mc_timestamp :: nat

record middleware =
  mname :: string
  m_before :: "(jsvalue \<Rightarrow> middlewareContext \<Rightarrow> jserror + jsvalue) option"
  m_after :: "(jsvalue \<Rightarrow> middlewareContext \<Rightarrow> jserror + jsvalue) option"
  m_error :: "(jserror \<Rightarrow> middlewareContext \<Rightarrow> jserror + unit) option"

subsection \<open>The state of a ComponentSystem\<close>

record options =
  enableHistory :: bool
  historySize :: int
  asyncTimeout :: int
  batchUpdates :: bool
  devTools :: bool

record systemConfig =
  sc_plugins :: "plugin list option"
  sc_middleware :: "middleware list option"
  sc_enableHistory :: "bool option"
  sc_historySize :: "int option"
  sc_asyncTimeout :: "int option"
  sc_batchUpdates :: "bool option"
  sc_devTools :: "bool option"

datatype event =
    HookCalled string string
  | MiddlewareCalled string string
  | SetCalled nat jsvalue
  | Committed nat jsvalue
  | CallbackInvoked nat jsvalue

text \<open>
  \<open>HookCalled hook plugin\<close>: the engine called that hook of that plugin.
  \<open>MiddlewareCalled phase name\<close>: it called the handler of that phase of that middleware.
  \<open>SetCalled r v\<close>: the mutator of the object at \<open>r\<close> was called with \<open>v\<close>.
  \<open>Committed r v\<close>: \<^verbatim>\<open>updateReactiveValue\<close> assigned \<open>v\<close> to the object at \<open>r\<close>.
  \<open>CallbackInvoked c v\<close>: the subscriber \<open>c\<close> was called with \<open>v\<close>.

  The maps of the class whose iteration order the code uses (\<^verbatim>\<open>plugins\<close>,
  \<^verbatim>\<open>batchQueue\<close>) are association lists in insertion order; the others are maps.
  A subscriber is a callback, known by its identity (a number). \<open>clock\<close> is what
  \<^verbatim>\<open>new Date()\<close> and \<^verbatim>\<open>Date.now()\<close> read.
\<close>

record system =
  heap :: "nat \<Rightarrow> reactive"
  next_ref :: nat
  reactives :: "string \<rightharpoonup> nat"
  plugins :: "(string \<times> plugin) list"
  middleware :: "middleware list"
  history :: "string \<rightharpoonup> jsvalue list"
  batchQueue :: "(string \<times> jsvalue) list"
  subscriptions :: "string \<rightharpoonup> nat list"
  options :: options
  clock :: nat
  trace :: "event list"

type_synonym 'a result = "(jserror + 'a) \<times> system"

subsection \<open>JavaScript Map and Set in insertion order\<close>

fun map_set :: "'k \<Rightarrow> 'v \<Rightarrow> ('k \<times> 'v) list \<Rightarrow> ('k \<times> 'v) list" where
  "map_set k v [] = [(k, v)]"
| "map_set k v ((k', v') # m) =
     (if k' = k then (k, v) # m else (k', v') # map_set k v m)"

definition set_add :: "'a \<Rightarrow> 'a list \<Rightarrow> 'a list" where
  "set_add x xs = (if x \<in> set xs then xs else xs @ [x])"

definition set_delete :: "'a \<Rightarrow> 'a list \<Rightarrow> 'a list" where
  "set_delete x xs = filter (\<lambda>y. y \<noteq> x) xs"

definition new_Set :: "'a list \<Rightarrow> 'a list" where
  "new_Set xs = foldl (\<lambda>s x. set_add x s) [] xs"

subsection \<open>Construction\<close>

definition emptyReactive :: reactive where
  "emptyReactive =
     \<lparr>rid = [], rvalue = JUndefined, has_set = False,
      meta = \<lparr>mtype = [], created = 0, lastUpdated = None, updateCount = 0,
              status = Idle, error = None\<rparr>,
      dependencies = [], dependents = []\<rparr>"

definition or_default :: "'a option \<Rightarrow> 'a \<Rightarrow> 'a" where
  "or_default x d = (case x of None \<Rightarrow> d | Some v \<Rightarrow> v)"

text \<open>
  The constructor: the defaults of the options, overridden by the options given;
  \<^verbatim>\<open>initializePlugins\<close> stores each plugin under its name. (The \<^verbatim>\<open>initialize\<close> hook of a
  plugin and \<^verbatim>\<open>setupDevTools\<close> are outside the model.)
\<close>

definition initializePlugins :: "plugin list \<Rightarrow> (string \<times> plugin) list" where
  "initializePlugins ps = foldl (\<lambda>m p. map_set (pname p) p m) [] ps"

definition ComponentSystem :: "systemConfig \<Rightarrow> system" where
  "ComponentSystem config =
     \<lparr>heap = (\<lambda>_. emptyReactive),
      next_ref = 0,
      reactives = Map.empty,
      plugins = initializePlugins (or_default (sc_plugins config) []),
      middleware = or_default (sc_middleware config) [],
      history = Map.empty,
      batchQueue = [],
      subscriptions = Map.empty,
      options =
        \<lparr>enableHistory = or_default (sc_enableHistory config) False,
         historySize = or_default (sc_historySize config) 10,
         asyncTimeout = or_default (sc_asyncTimeout config) 5000,
         batchUpdates = or_default (sc_batchUpdates config) False,
         devTools = or_default (sc_devTools config) False\<rparr>,
      clock = 0,
      trace = []\<rparr>"

definition logEvent :: "event \<Rightarrow> system \<Rightarrow> system" where
  "logEvent ev sys = sys\<lparr>trace := trace sys @ [ev]\<rparr>"

subsection \<open>runPluginHook and runMiddleware\<close>

text \<open>
  \<^verbatim>\<open>runPluginHook(hook, value, ...args)\<close>: a left fold over the plugins in the order of
  the map; a plugin without the hook is skipped, a hook that throws ends the loop.
  \<open>sel\<close> reads the hook off a plugin, with the extra arguments already given.
\<close>

fun runPluginHook_loop ::
  "string \<Rightarrow> (plugin \<Rightarrow> ('a \<Rightarrow> jserror + 'a) option) \<Rightarrow> plugin list \<Rightarrow> 'a \<Rightarrow> system
   \<Rightarrow> (jserror + 'a) \<times> system" where
  "runPluginHook_loop hook sel [] result sys = (Inr result, sys)"
| "runPluginHook_loop hook sel (p # ps) result sys =
     (case sel p of
        None \<Rightarrow> runPluginHook_loop hook sel ps result sys
      | Some hookFn \<Rightarrow>
          (case hookFn result of
             Inl e \<Rightarrow> (Inl e, logEvent (HookCalled hook (pname p)) sys)
           | Inr r \<Rightarrow>
               runPluginHook_loop hook sel ps r (logEvent (HookCalled hook (pname p)) sys)))"

definition runPluginHook ::
  "string \<Rightarrow> (plugin \<Rightarrow> ('a \<Rightarrow> jserror + 'a) option) \<Rightarrow> 'a \<Rightarrow> system
   \<Rightarrow> (jserror + 'a) \<times> system" where
  "runPluginHook hook sel v sys = runPluginHook_loop hook sel (map snd (plugins sys)) v sys"

text \<open>The six hooks, as \<^verbatim>\<open>plugin[hook]\<close> reads them.\<close>

definition void_hook ::
  "('a option \<Rightarrow> jserror + unit) option \<Rightarrow> ('a option \<Rightarrow> jserror + 'a option) option" where
  "void_hook h = map_option (\<lambda>f x. case f x of Inl e \<Rightarrow> Inl e | Inr _ \<Rightarrow> Inr None) h"

definition sel_beforeCreate :: "plugin \<Rightarrow> (reactiveConfig \<Rightarrow> jserror + reactiveConfig) option" where
  "sel_beforeCreate p = p_beforeCreate p"

definition sel_afterCreate :: "plugin \<Rightarrow> (reactive option \<Rightarrow> jserror + reactive option) option" where
  "sel_afterCreate p = void_hook (p_afterCreate p)"

definition sel_beforeDestroy :: "plugin \<Rightarrow> (reactive option \<Rightarrow> jserror + reactive option) option" where
  "sel_beforeDestroy p = void_hook (p_beforeDestroy p)"

definition sel_beforeUpdate :: "jsvalue \<Rightarrow> plugin \<Rightarrow> (jsvalue \<Rightarrow> jserror + jsvalue) option" where
  "sel_beforeUpdate oldValue p = map_option (\<lambda>f v. f v oldValue) (p_beforeUpdate p)"

definition sel_afterUpdate :: "plugin \<Rightarrow> (jsvalue \<Rightarrow> jserror + jsvalue) option" where
  "sel_afterUpdate p =
     map_option (\<lambda>f v. case f v of Inl e \<Rightarrow> Inl e | Inr _ \<Rightarrow> Inr JUndefined) (p_afterUpdate p)"

text \<open>
  \<^verbatim>\<open>runMiddleware(phase, value, {reactive})\<close>: the handlers of the phase in registration
  order, each given the result of the one before; \<open>r\<close> is the address of the reactive
  of the context, \<open>ts\<close> the timestamp read once before the loop.
\<close>

fun runMiddleware_loop ::
  "string \<Rightarrow> nat \<Rightarrow> nat \<Rightarrow> middleware list \<Rightarrow> jsvalue \<Rightarrow> system \<Rightarrow> (jserror + jsvalue) \<times> system" where
  "runMiddleware_loop phase r ts [] result sys = (Inr result, sys)"
| "runMiddleware_loop phase r ts (m # ms) result sys =
     (case (if phase = ''before'' then m_before m else m_after m) of
        None \<Rightarrow> runMiddleware_loop phase r ts ms result sys
      | Some handler \<Rightarrow>
          (case handler result \<lparr>mc_reactive = heap sys r, mc_phase = phase, mc_timestamp = ts\<rparr> of
             Inl e \<Rightarrow> (Inl e, logEvent (MiddlewareCalled phase (mname m)) sys)
           | Inr v \<Rightarrow>
               runMiddleware_loop phase r ts ms v
                 (logEvent (MiddlewareCalled phase (mname m)) sys)))"

definition runMiddleware :: "string \<Rightarrow> jsvalue \<Rightarrow> nat \<Rightarrow> system \<Rightarrow> (jserror + jsvalue) \<times> system" where
  "runMiddleware phase v r sys = runMiddleware_loop phase r (clock sys) (middleware sys) v sys"

subsection \<open>handleError\<close>

fun handleError_plugins :: "jserror \<Rightarrow> errorContext \<Rightarrow> plugin list \<Rightarrow> system \<Rightarrow> (jserror + unit) \<times> system" where
  "handleError_plugins e ctx [] sys = (Inr (), sys)"
| "handleError_plugins e ctx (p # ps) sys =
     (case p_handleError p of
        None \<Rightarrow> handleError_plugins e ctx ps sys
      | Some h \<Rightarrow>
          (case h e ctx of
             Inl e' \<Rightarrow> (Inl e', logEvent (HookCalled ''handleError'' (pname p)) sys)
           | Inr _ \<Rightarrow>
               handleError_plugins e ctx ps (logEvent (HookCalled ''handleError'' (pname p)) sys)))"

fun handleError_middleware :: "jserror \<Rightarrow> nat \<Rightarrow> middleware list \<Rightarrow> system \<Rightarrow> (jserror + unit) \<times> system" where
  "handleError_middleware e r [] sys = (Inr (), sys)"
| "handleError_middleware e r (m # ms) sys =
     (case m_error m of
        None \<Rightarrow> handleError_middleware e r ms sys
      | Some h \<Rightarrow>
          (case h e \<lparr>mc_reactive = heap sys r, mc_phase = ''error'', mc_timestamp = clock sys\<rparr> of
             Inl e' \<Rightarrow> (Inl e', logEvent (MiddlewareCalled ''error'' (mname m)) sys)
           | Inr _ \<Rightarrow>
               handleError_middleware e r ms (logEvent (MiddlewareCalled ''error'' (mname m)) sys)))"

text \<open>
  \<^verbatim>\<open>handleError(error, {reactive, phase})\<close> never returns normally: it ends in
  \<^verbatim>\<open>throw error\<close>, unless a handler has thrown before. The result is the error thrown.
\<close>

definition setErrorStatus :: "jserror \<Rightarrow> nat \<Rightarrow> system \<Rightarrow> system" where
  "setErrorStatus e r sys =
     sys\<lparr>heap := (heap sys)(r := (heap sys r)
            \<lparr>meta := (meta (heap sys r))\<lparr>status := ErrorStatus, error := Some e\<rparr>\<rparr>)\<rparr>"

definition handleError :: "jserror \<Rightarrow> nat \<Rightarrow> string \<Rightarrow> system \<Rightarrow> jserror \<times> system" where
  "handleError e r phase sys =
     (let sys1 = setErrorStatus e r sys in
      case handleError_plugins e \<lparr>ec_phase = phase, ec_type = mtype (meta (heap sys1 r))\<rparr>
             (map snd (plugins sys1)) sys1 of
        (Inl e', sys2) \<Rightarrow> (e', sys2)
      | (Inr _, sys2) \<Rightarrow>
          (case handleError_middleware e r (middleware sys2) sys2 of
             (Inl e', sys3) \<Rightarrow> (e', sys3)
           | (Inr _, sys3) \<Rightarrow> (e, sys3)))"

subsection \<open>History\<close>

definition updateHistory :: "string \<Rightarrow> jsvalue \<Rightarrow> system \<Rightarrow> system" where
  "updateHistory reactiveId v sys =
     (let h = or_default (history sys reactiveId) [] @ [v]
      in sys\<lparr>history := (history sys)(reactiveId \<mapsto>
               (if int (length h) > historySize (options sys) then tl h else h))\<rparr>)"

subsection \<open>Registry\<close>

definition getReactive :: "string \<Rightarrow> system \<Rightarrow> nat option" where
  "getReactive i sys = reactives sys i"

definition registerReactive :: "nat \<Rightarrow> system \<Rightarrow> system" where
  "registerReactive r sys = sys\<lparr>reactives := (reactives sys)(rid (heap sys r) \<mapsto> r)\<rparr>"

subsection \<open>The mutator, updateReactiveValue and notifyDependents\<close>

definition commitValue :: "nat \<Rightarrow> jsvalue \<Rightarrow> system \<Rightarrow> system" where
  "commitValue r v sys =
     logEvent (Committed r v)
       (sys\<lparr>heap := (heap sys)(r := (heap sys r)
              \<lparr>rvalue := v,
               meta := (meta (heap sys r))
                 \<lparr>lastUpdated := Some (clock sys),
                  updateCount := Suc (updateCount (meta (heap sys r)))\<rparr>\<rparr>)\<rparr>)"

text \<open>The \<^verbatim>\<open>catch\<close> block of the mutator: \<^verbatim>\<open>await this.handleError(error, {reactive, phase: "update"})\<close>.\<close>

definition set_catch :: "jserror \<Rightarrow> nat \<Rightarrow> system \<Rightarrow> (unit result) option" where
  "set_catch e r sys = (case handleError e r ''update'' sys of (e', sys') \<Rightarrow> Some (Inl e', sys'))"

text \<open>
  \<open>set_reactive n r v\<close> is the closure \<^verbatim>\<open>reactive.set\<close> that \<^verbatim>\<open>createReactive\<close> gives the
  object at \<open>r\<close>, called with \<open>v\<close>. \<open>notifyDependents_loop n visited queue\<close> is the
  \<^verbatim>\<open>while\<close> loop of \<^verbatim>\<open>notifyDependents\<close>.
\<close>

fun set_reactive :: "nat \<Rightarrow> nat \<Rightarrow> jsvalue \<Rightarrow> system \<Rightarrow> (unit result) option"
and updateReactiveValue :: "nat \<Rightarrow> nat \<Rightarrow> jsvalue \<Rightarrow> system \<Rightarrow> (unit result) option"
and notifyDependents :: "nat \<Rightarrow> nat \<Rightarrow> system \<Rightarrow> (unit result) option"
and notifyDependents_loop :: "nat \<Rightarrow> string set \<Rightarrow> string list \<Rightarrow> system \<Rightarrow> (unit result) option"
where
  "set_reactive 0 r newValue sys = None"
| "set_reactive (Suc n) r newValue sys =
     (case runMiddleware ''before'' newValue r (logEvent (SetCalled r newValue) sys) of
        (Inl e, sys1) \<Rightarrow> set_catch e r sys1
      | (Inr processedValue, sys1) \<Rightarrow>
          (case updateReactiveValue n r processedValue sys1 of
             None \<Rightarrow> None
           | Some (Inl e, sys2) \<Rightarrow> set_catch e r sys2
           | Some (Inr _, sys2) \<Rightarrow>
               (case runMiddleware ''after'' (rvalue (heap sys2 r)) r sys2 of
                  (Inl e, sys3) \<Rightarrow> set_catch e r sys3
                | (Inr _, sys3) \<Rightarrow> Some (Inr (), sys3))))"
| "updateReactiveValue 0 r newValue sys = None"
| "updateReactiveValue (Suc n) r newValue sys =
     (if batchUpdates (options sys) \<and> length (batchQueue sys) > 0
      then Some (Inr (), sys\<lparr>batchQueue := map_set (rid (heap sys r)) newValue (batchQueue sys)\<rparr>)
      else
        (case runPluginHook ''beforeUpdate'' (sel_beforeUpdate (rvalue (heap sys r))) newValue sys of
           (Inl e, sys1) \<Rightarrow> Some (Inl e, sys1)
         | (Inr processedValue, sys1) \<Rightarrow>
             (case notifyDependents n r
                     (if enableHistory (options sys1)
                      then updateHistory (rid (heap sys1 r)) (rvalue (heap sys r))
                             (commitValue r processedValue sys1)
                      else commitValue r processedValue sys1) of
                None \<Rightarrow> None
              | Some (Inl e, sys4) \<Rightarrow> Some (Inl e, sys4)
              | Some (Inr _, sys4) \<Rightarrow>
                  (case runPluginHook ''afterUpdate'' sel_afterUpdate processedValue sys4 of
                     (Inl e, sys5) \<Rightarrow> Some (Inl e, sys5)
                   | (Inr _, sys5) \<Rightarrow> Some (Inr (), sys5)))))"
| "notifyDependents 0 r sys = None"
| "notifyDependents (Suc n) r sys = notifyDependents_loop n {} (dependents (heap sys r)) sys"
| "notifyDependents_loop 0 visited queue sys = None"
| "notifyDependents_loop (Suc n) visited [] sys = Some (Inr (), sys)"
| "notifyDependents_loop (Suc n) visited (dependentId # queue) sys =
     (if dependentId \<in> visited then notifyDependents_loop n visited queue sys
      else
        (case getReactive dependentId sys of
           None \<Rightarrow> notifyDependents_loop n (insert dependentId visited) queue sys
         | Some d \<Rightarrow>
             (if has_set (heap sys d)
              then
                (case set_reactive n d (rvalue (heap sys d)) sys of
                   None \<Rightarrow> None
                 | Some (Inl e, sys1) \<Rightarrow> Some (Inl e, sys1)
                 | Some (Inr _, sys1) \<Rightarrow>
                     notifyDependents_loop n (insert dependentId visited)
                       (queue @ dependents (heap sys1 d)) sys1)
              else
                notifyDependents_loop n (insert dependentId visited)
                  (queue @ dependents (heap sys d)) sys)))"

text \<open>
  A mutator that may be absent is called as \<^verbatim>\<open>reactive.set?.(value)\<close>
  (\<^verbatim>\<open>batch\<close>, the flush): nothing happens when \<^verbatim>\<open>set\<close> is absent.
\<close>

definition set_optional :: "nat \<Rightarrow> nat \<Rightarrow> jsvalue \<Rightarrow> system \<Rightarrow> (unit result) option" where
  "set_optional n r v sys =
     (if has_set (heap sys r) then set_reactive n r v sys else Some (Inr (), sys))"

subsection \<open>create, createReactive, removeReactive, subscribe\<close>

text \<open>
  \<open>uuid\<close> is what \<^verbatim>\<open>crypto.randomUUID()\<close> returns in this call; \<^verbatim>\<open>config.id || ...\<close> takes
  it when the id is absent or the empty string.
\<close>

definition createReactive :: "string \<Rightarrow> reactiveConfig \<Rightarrow> system \<Rightarrow> nat \<times> system" where
  "createReactive uuid config sys =
     (next_ref sys,
      registerReactive (next_ref sys)
        (sys\<lparr>heap := (heap sys)(next_ref sys :=
               \<lparr>rid = (case cid config of None \<Rightarrow> uuid | Some i \<Rightarrow> if i = [] then uuid else i),
                rvalue = initialValue config,
                has_set = (ctype config \<noteq> ''readonly''),
                meta = \<lparr>mtype = ctype config, created = clock sys, lastUpdated = None,
                        updateCount = 0, status = Idle, error = None\<rparr>,
                dependencies = new_Set (or_default (cdependencies config) []),
                dependents = []\<rparr>),
             next_ref := Suc (next_ref sys)\<rparr>))"

definition create :: "string \<Rightarrow> reactiveConfig \<Rightarrow> system \<Rightarrow> nat result" where
  "create uuid config sys =
     (case runPluginHook ''beforeCreate'' sel_beforeCreate config sys of
        (Inl e, sys1) \<Rightarrow> (Inl e, sys1)
      | (Inr processedConfig, sys1) \<Rightarrow>
          (case createReactive uuid processedConfig sys1 of
             (r, sys2) \<Rightarrow>
               (case runPluginHook ''afterCreate'' sel_afterCreate (Some (heap sys2 r)) sys2 of
                  (Inl e, sys3) \<Rightarrow> (Inl e, sys3)
                | (Inr _, sys3) \<Rightarrow> (Inr r, sys3))))"

text \<open>
  \<^verbatim>\<open>removeReactive\<close> starts the \<^verbatim>\<open>beforeDestroy\<close> hooks and does not await them: their
  result, also a failure, is dropped.
\<close>

definition removeReactive :: "string \<Rightarrow> system \<Rightarrow> system" where
  "removeReactive i sys =
     (case reactives sys i of
        None \<Rightarrow> sys
      | Some r \<Rightarrow>
          (case runPluginHook ''beforeDestroy'' sel_beforeDestroy (Some (heap sys r)) sys of
             (_, sys1) \<Rightarrow>
               sys1\<lparr>reactives := (reactives sys1)(i := None),
                    history := (history sys1)(i := None),
                    subscriptions := (subscriptions sys1)(i := None)\<rparr>))"

definition subscribe :: "string \<Rightarrow> nat \<Rightarrow> system \<Rightarrow> system" where
  "subscribe i callback sys =
     sys\<lparr>subscriptions := (subscriptions sys)(i \<mapsto>
           set_add callback (or_default (subscriptions sys i) []))\<rparr>"

text \<open>The function that \<^verbatim>\<open>subscribe\<close> returns.\<close>

definition unsubscribe_callback :: "string \<Rightarrow> nat \<Rightarrow> system \<Rightarrow> system" where
  "unsubscribe_callback i callback sys =
     (case subscriptions sys i of
        None \<Rightarrow> sys
      | Some cbs \<Rightarrow> sys\<lparr>subscriptions := (subscriptions sys)(i \<mapsto> set_delete callback cbs)\<rparr>)"

definition unsubscribe :: "string \<Rightarrow> system \<Rightarrow> system" where
  "unsubscribe i sys = sys\<lparr>subscriptions := (subscriptions sys)(i := None)\<rparr>"

subsection \<open>batch\<close>

text \<open>
  An operation is a function without arguments that returns a promise: here a
  function of the fuel and the state. \<open>run_operations\<close> is
  \<^verbatim>\<open>Promise.all(operations.map((op) => op()))\<close>: every operation is started, whether or
  not another one rejects; the result is the first rejection, if there is one.
\<close>

type_synonym operation = "nat \<Rightarrow> system \<Rightarrow> (unit result) option"

fun run_operations :: "nat \<Rightarrow> operation list \<Rightarrow> system \<Rightarrow> (jserror option \<times> system) option" where
  "run_operations n [] sys = Some (None, sys)"
| "run_operations n (op # ops) sys =
     (case op n sys of
        None \<Rightarrow> None
      | Some (res, sys1) \<Rightarrow>
          (case run_operations n ops sys1 of
             None \<Rightarrow> None
           | Some (rest, sys2) \<Rightarrow>
               Some (case res of Inl e \<Rightarrow> Some e | Inr _ \<Rightarrow> rest, sys2)))"

text \<open>The flush: \<^verbatim>\<open>this.getReactive(id)?.set?.(value)\<close> for each entry of the queue.\<close>

definition flush_operation :: "string \<times> jsvalue \<Rightarrow> operation" where
  "flush_operation u n sys =
     (case getReactive (fst u) sys of
        None \<Rightarrow> Some (Inr (), sys)
      | Some r \<Rightarrow> set_optional n r (snd u) sys)"

definition batch :: "nat \<Rightarrow> operation list \<Rightarrow> system \<Rightarrow> (unit result) option" where
  "batch n operations sys =
     (case run_operations n operations sys of
        None \<Rightarrow> None
      | Some (Some e, sys1) \<Rightarrow> Some (Inl e, sys1)
      | Some (None, sys1) \<Rightarrow>
          (case run_operations n (map flush_operation (batchQueue sys1))
                  (sys1\<lparr>batchQueue := []\<rparr>) of
             None \<Rightarrow> None
           | Some (Some e, sys2) \<Rightarrow> Some (Inl e, sys2)
           | Some (None, sys2) \<Rightarrow> Some (Inr (), sys2)))"

section \<open>Definitions for the statements\<close>

subsection \<open>Events and frames\<close>

text \<open>
  \<open>user_call\<close> holds of the calls to hooks and middleware handlers. \<open>frame sys sys'\<close>
  says what a call of the engine never changes between its start \<open>sys\<close> and its end
  \<open>sys'\<close>: the registry, the configuration, the subscriptions, the identity, mutator,
  dependents and dependencies of every object; an update count never goes down, an
  empty batch queue stays empty, the trace only grows, no subscriber is called, a value
  changes only where an assignment was recorded, and a history log changes only for the
  id of an object that was assigned.
\<close>

fun user_call :: "event \<Rightarrow> bool" where
  "user_call (HookCalled h p) = True"
| "user_call (MiddlewareCalled ph m) = True"
| "user_call _ = False"

definition frame :: "system \<Rightarrow> system \<Rightarrow> bool" where
  "frame sys sys' \<longleftrightarrow>
     reactives sys' = reactives sys \<and> plugins sys' = plugins sys \<and>
     middleware sys' = middleware sys \<and> options sys' = options sys \<and>
     subscriptions sys' = subscriptions sys \<and> next_ref sys' = next_ref sys \<and>
     clock sys' = clock sys \<and>
     (batchQueue sys = [] \<longrightarrow> batchQueue sys' = []) \<and>
     (\<forall>q. rid (heap sys' q) = rid (heap sys q) \<and> has_set (heap sys' q) = has_set (heap sys q) \<and>
          dependents (heap sys' q) = dependents (heap sys q) \<and>
          dependencies (heap sys' q) = dependencies (heap sys q) \<and>
          updateCount (meta (heap sys q)) \<le> updateCount (meta (heap sys' q))) \<and>
     (\<exists>evs. trace sys' = trace sys @ evs \<and> (\<forall>c v. CallbackInvoked c v \<notin> set evs) \<and>
        (\<forall>q. (\<forall>x. Committed q x \<notin> set evs) \<longrightarrow> rvalue (heap sys' q) = rvalue (heap sys q)) \<and>
        (\<forall>i. (\<forall>q x. Committed q x \<in> set evs \<longrightarrow> rid (heap sys q) \<noteq> i)
             \<longrightarrow> history sys' i = history sys i))"

text \<open>
  A set of ids is closed under dependents when the registered objects of its ids have
  their own id and all their dependents in the set. \<open>inside S\<close> is a frame that also
  keeps the history logs of the ids outside \<open>S\<close>; \<open>stays_inside S n\<close> is the statement,
  for the fuel \<open>n\<close>, that a mutation or a propagation pass which starts in \<open>S\<close> is inside
  \<open>S\<close>.
\<close>

definition closed_under_dependents :: "string set \<Rightarrow> system \<Rightarrow> bool" where
  "closed_under_dependents S sys \<longleftrightarrow>
     (\<forall>i \<in> S. \<forall>d. reactives sys i = Some d \<longrightarrow>
         rid (heap sys d) \<in> S \<and> set (dependents (heap sys d)) \<subseteq> S)"

definition inside :: "string set \<Rightarrow> system \<Rightarrow> system \<Rightarrow> bool" where
  "inside S sys sys' \<longleftrightarrow> frame sys sys' \<and> (\<forall>i. i \<notin> S \<longrightarrow> history sys' i = history sys i)"

definition stays_inside :: "string set \<Rightarrow> nat \<Rightarrow> bool" where
  "stays_inside S n \<longleftrightarrow>
     (\<forall>r v s res s'. closed_under_dependents S s \<and> rid (heap s r) \<in> S \<and>
         set (dependents (heap s r)) \<subseteq> S \<and> set_reactive n r v s = Some (res, s')
         \<longrightarrow> inside S s s') \<and>
     (\<forall>r v s res s'. closed_under_dependents S s \<and> rid (heap s r) \<in> S \<and>
         set (dependents (heap s r)) \<subseteq> S \<and> updateReactiveValue n r v s = Some (res, s')
         \<longrightarrow> inside S s s') \<and>
     (\<forall>r s res s'. closed_under_dependents S s \<and>
         set (dependents (heap s r)) \<subseteq> S \<and> notifyDependents n r s = Some (res, s')
         \<longrightarrow> inside S s s') \<and>
     (\<forall>vis q s res s'. closed_under_dependents S s \<and> set q \<subseteq> S \<and>
         notifyDependents_loop n vis q s = Some (res, s')
         \<longrightarrow> inside S s s')"

text \<open>
  \<open>registry_wf\<close>: every object is registered under its own id, as \<^verbatim>\<open>registerReactive\<close>
  stores it. \<open>wellformed\<close> adds that the batch queue is empty and that the registered
  addresses are allocated; it holds of a new system and is kept by the operations.
  \<open>visited_set n vis q s V\<close> describes the ids \<open>V\<close> that a propagation pass has visited
  when it returns, started with the visited set \<open>vis\<close> and the queue \<open>q\<close>: \<open>V\<close> holds
  both, it is closed under the dependents of the ids the pass has added, and the
  mutators of their objects have been called, with less fuel, and have returned.
\<close>

definition registry_wf :: "system \<Rightarrow> bool" where
  "registry_wf sys \<longleftrightarrow> (\<forall>i d. reactives sys i = Some d \<longrightarrow> rid (heap sys d) = i)"

definition wellformed :: "system \<Rightarrow> bool" where
  "wellformed sys \<longleftrightarrow>
     registry_wf sys \<and> batchQueue sys = [] \<and>
     (\<forall>i d. reactives sys i = Some d \<longrightarrow> d < next_ref sys)"

definition visited_set :: "nat \<Rightarrow> string set \<Rightarrow> string list \<Rightarrow> system \<Rightarrow> string set \<Rightarrow> bool" where
  "visited_set n vis q s V \<longleftrightarrow>
     vis \<union> set q \<subseteq> V \<and>
     (\<forall>i d. i \<in> V \<and> i \<notin> vis \<and> reactives s i = Some d \<longrightarrow>
        set (dependents (heap s d)) \<subseteq> V \<and>
        (has_set (heap s d) \<longrightarrow>
           (\<exists>m s1 s2 v u. m < n \<and> frame s s1 \<and> set_reactive m d v s1 = Some (Inr u, s2))))"

subsection \<open>Who is called by handleError, and what it throws\<close>

text \<open>
  \<open>called_until_throw throws xs\<close> is the prefix of \<open>xs\<close> up to and including the first
  element that throws (all of \<open>xs\<close> when none does). \<open>first_thrown thrown xs\<close> is the
  error of the first element of \<open>xs\<close> that throws, \<open>None\<close> when none does;
  \<open>plugin_thrown\<close> and \<open>middleware_thrown\<close> give the error that the \<^verbatim>\<open>handleError\<close> hook of
  a plugin, or the \<^verbatim>\<open>error\<close> handler of a middleware, throws. \<open>thrown_by_handleError e r
  phase sys\<close> is the error of the first hook that throws, else of the first \<^verbatim>\<open>error\<close>
  handler that throws, else \<open>e\<close>; \<open>handler_calls e r phase sys\<close> lists the calls of hooks
  and handlers up to and including the first that throws. \<open>handlers_return e r sys\<close>: no
  \<^verbatim>\<open>handleError\<close> hook and no \<^verbatim>\<open>error\<close> handler throws when it is given the error \<open>e\<close> of a
  mutation of the object at \<open>r\<close> that failed in the state \<open>sys\<close>.
\<close>

fun called_until_throw :: "('a \<Rightarrow> bool) \<Rightarrow> 'a list \<Rightarrow> 'a list" where
  "called_until_throw throws [] = []"
| "called_until_throw throws (x # xs) =
     (if throws x then [x] else x # called_until_throw throws xs)"

definition plugin_throws :: "jserror \<Rightarrow> errorContext \<Rightarrow> plugin \<Rightarrow> bool" where
  "plugin_throws e ctx p = (case p_handleError p of None \<Rightarrow> False | Some h \<Rightarrow> isl (h e ctx))"

definition middleware_throws :: "jserror \<Rightarrow> middlewareContext \<Rightarrow> middleware \<Rightarrow> bool" where
  "middleware_throws e ctx m = (case m_error m of None \<Rightarrow> False | Some h \<Rightarrow> isl (h e ctx))"

fun first_thrown :: "('a \<Rightarrow> jserror option) \<Rightarrow> 'a list \<Rightarrow> jserror option" where
  "first_thrown thrown [] = None"
| "first_thrown thrown (x # xs) =
     (case thrown x of Some e \<Rightarrow> Some e | None \<Rightarrow> first_thrown thrown xs)"

definition plugin_thrown :: "jserror \<Rightarrow> errorContext \<Rightarrow> plugin \<Rightarrow> jserror option" where
  "plugin_thrown e ctx p =
     (case p_handleError p of
        None \<Rightarrow> None
      | Some h \<Rightarrow> (case h e ctx of Inl e' \<Rightarrow> Some e' | Inr _ \<Rightarrow> None))"

definition middleware_thrown :: "jserror \<Rightarrow> middlewareContext \<Rightarrow> middleware \<Rightarrow> jserror option" where
  "middleware_thrown e ctx m =
     (case m_error m of
        None \<Rightarrow> None
      | Some h \<Rightarrow> (case h e ctx of Inl e' \<Rightarrow> Some e' | Inr _ \<Rightarrow> None))"

definition thrown_by_handleError :: "jserror \<Rightarrow> nat \<Rightarrow> string \<Rightarrow> system \<Rightarrow> jserror" where
  "thrown_by_handleError e r phase sys =
     (case first_thrown
             (plugin_thrown e \<lparr>ec_phase = phase, ec_type = mtype (meta (heap sys r))\<rparr>)
             (map snd (plugins sys)) of
        Some e' \<Rightarrow> e'
      | None \<Rightarrow>
          (case first_thrown
                  (middleware_thrown e
                     \<lparr>mc_reactive = heap (setErrorStatus e r sys) r, mc_phase = ''error'',
                      mc_timestamp = clock sys\<rparr>)
                  (middleware sys) of
             Some e' \<Rightarrow> e'
           | None \<Rightarrow> e))"

definition handler_calls :: "jserror \<Rightarrow> nat \<Rightarrow> string \<Rightarrow> system \<Rightarrow> event list" where
  "handler_calls e r phase sys =
     map (\<lambda>p. HookCalled ''handleError'' (pname p))
       (called_until_throw
          (plugin_throws e \<lparr>ec_phase = phase, ec_type = mtype (meta (heap sys r))\<rparr>)
          (filter (\<lambda>p. p_handleError p \<noteq> None) (map snd (plugins sys)))) @
     (if list_ex (plugin_throws e \<lparr>ec_phase = phase, ec_type = mtype (meta (heap sys r))\<rparr>)
           (map snd (plugins sys))
      then []
      else map (\<lambda>m. MiddlewareCalled ''error'' (mname m))
        (called_until_throw
           (middleware_throws e
              \<lparr>mc_reactive = heap (setErrorStatus e r sys) r, mc_phase = ''error'',
               mc_timestamp = clock sys\<rparr>)
           (filter (\<lambda>m. m_error m \<noteq> None) (middleware sys))))"

definition handlers_return :: "jserror \<Rightarrow> nat \<Rightarrow> system \<Rightarrow> bool" where
  "handlers_return e r sys \<longleftrightarrow>
     \<not> list_ex (plugin_throws e \<lparr>ec_phase = ''update'', ec_type = mtype (meta (heap sys r))\<rparr>)
          (map snd (plugins sys)) \<and>
     \<not> list_ex (middleware_throws e
          \<lparr>mc_reactive = heap (setErrorStatus e r sys) r, mc_phase = ''error'',
           mc_timestamp = clock sys\<rparr>)
          (middleware sys)"

subsection \<open>The stages of a mutation\<close>

text \<open>
  \<open>assigned r oldValue v sys\<close> is the state after the assignment in the middle of
  \<^verbatim>\<open>updateReactiveValue\<close>: the value, \<^verbatim>\<open>lastUpdated\<close> and \<^verbatim>\<open>updateCount\<close> of the object at
  \<open>r\<close> are written and, with history enabled, \<open>oldValue\<close> is pushed on the log of its
  id. \<open>rejects_at outcome f r s\<close> says that the outcome of a call of the mutator of the
  object at \<open>r\<close> is a rejection, caught with the failure \<open>f\<close> in the state \<open>s\<close>: the call
  rejects with the error that \<^verbatim>\<open>handleError\<close> throws for \<open>f\<close>; the status of the object is
  \<^verbatim>\<open>error\<close> and its \<^verbatim>\<open>meta.error\<close> is \<open>f\<close>; its value, its update count, every other object
  and every history log are those of \<open>s\<close>; and the trace of \<open>s\<close> is followed by the calls
  of the handlers.
\<close>

definition assigned :: "nat \<Rightarrow> jsvalue \<Rightarrow> jsvalue \<Rightarrow> system \<Rightarrow> system" where
  "assigned r oldValue processedValue sys =
     (if enableHistory (options sys)
      then updateHistory (rid (heap sys r)) oldValue (commitValue r processedValue sys)
      else commitValue r processedValue sys)"

definition rejects_at :: "(unit result) option \<Rightarrow> jserror \<Rightarrow> nat \<Rightarrow> system \<Rightarrow> bool" where
  "rejects_at outcome f r s =
     (case outcome of
        Some (Inl e, sys') \<Rightarrow>
          e = thrown_by_handleError f r ''update'' s \<and>
          status (meta (heap sys' r)) = ErrorStatus \<and> error (meta (heap sys' r)) = Some f \<and>
          rvalue (heap sys' r) = rvalue (heap s r) \<and>
          updateCount (meta (heap sys' r)) = updateCount (meta (heap s r)) \<and>
          (\<forall>q. q \<noteq> r \<longrightarrow> heap sys' q = heap s q) \<and>
          history sys' = history s \<and>
          trace sys' = trace s @ handler_calls f r ''update'' s
      | _ \<Rightarrow> False)"

subsection \<open>History logs and sequences of commits\<close>

text \<open>
  \<open>history_push N h v\<close> is the log after \<^verbatim>\<open>updateHistory\<close> has pushed \<open>v\<close> on the log \<open>h\<close>;
  \<open>historyOf sys i\<close> is the log of the id, empty when the map has no entry.
  \<open>commits n r vs sys\<close> calls the mutator of the object at \<open>r\<close> with each value of \<open>vs\<close>,
  one call after the other has returned; it is \<open>None\<close> unless every call returns without
  an error, and it returns the values that were in place before each call.
\<close>

definition history_push :: "int \<Rightarrow> jsvalue list \<Rightarrow> jsvalue \<Rightarrow> jsvalue list" where
  "history_push N h v = (if int (length (h @ [v])) > N then tl (h @ [v]) else h @ [v])"

definition historyOf :: "system \<Rightarrow> string \<Rightarrow> jsvalue list" where
  "historyOf sys i = or_default (history sys i) []"

fun commits :: "nat \<Rightarrow> nat \<Rightarrow> jsvalue list \<Rightarrow> system \<Rightarrow> (jsvalue list \<times> system) option" where
  "commits n r [] sys = Some ([], sys)"
| "commits n r (v # vs) sys =
     (case set_reactive n r v sys of
        Some (Inr _, sys1) \<Rightarrow>
          (case commits n r vs sys1 of
             Some (priors, sys2) \<Rightarrow> Some (rvalue (heap sys r) # priors, sys2)
           | None \<Rightarrow> None)
      | _ \<Rightarrow> None)"

text \<open>The assignments to, and the mutator calls of, one object in a trace.\<close>

fun is_commit :: "nat \<Rightarrow> event \<Rightarrow> bool" where
  "is_commit r (Committed q v) = (q = r)"
| "is_commit r _ = False"

fun is_set_call :: "nat \<Rightarrow> event \<Rightarrow> bool" where
  "is_set_call r (SetCalled q v) = (q = r)"
| "is_set_call r _ = False"

subsection \<open>Example systems\<close>

text \<open>
  The engine never writes the \<^verbatim>\<open>dependents\<close> of an object. The field is public on the
  handle, and \<open>dependents_add\<close> is the caller's \<^verbatim>\<open>handle.dependents.add(id)\<close>.
\<close>

definition dependents_add :: "nat \<Rightarrow> string \<Rightarrow> system \<Rightarrow> system" where
  "dependents_add r i sys =
     sys\<lparr>heap := (heap sys)(r := (heap sys r)\<lparr>dependents := set_add i (dependents (heap sys r))\<rparr>)\<rparr>"

text \<open>
  A system with history (size 3) and batching switched on, as the example at the end
  of factory.ts has it, with the reactives \<^verbatim>\<open>count\<close> and \<^verbatim>\<open>doubled\<close> of that example.
\<close>

definition ex_config :: systemConfig where
  "ex_config = \<lparr>sc_plugins = None, sc_middleware = None, sc_enableHistory = Some True,
     sc_historySize = Some 3, sc_asyncTimeout = None, sc_batchUpdates = Some True, sc_devTools = None\<rparr>"

definition ex_count :: system where
  "ex_count = snd (create ''uuid-1''
      \<lparr>cid = Some ''count'', ctype = ''state'', initialValue = JNum 0, cdependencies = None\<rparr>
      (ComponentSystem ex_config))"

definition ex_doubled :: system where
  "ex_doubled = snd (create ''uuid-2''
      \<lparr>cid = Some ''doubled'', ctype = ''computed'', initialValue = JNum 0,
       cdependencies = Some [''count'']\<rparr> ex_count)"

definition ex_wired :: system where
  "ex_wired = dependents_add 0 ''doubled'' ex_doubled"


text \<open>
  The validation middleware of the example in factory.ts, a plugin whose error hook
  throws, a logger plugin whose hooks return, and a middleware whose \<^verbatim>\<open>after\<close> handler
  throws.
\<close>

definition ex_validation :: middleware where
  "ex_validation =
     \<lparr>mname = ''validation'',
      m_before = Some (\<lambda>v ctx. if v = JNull then Inl (Error ''Value cannot be null'') else Inr v),
      m_after = None, m_error = None\<rparr>"

definition ex_failing_plugin :: plugin where
  "ex_failing_plugin =
     \<lparr>pname = ''reporter'', p_beforeCreate = None, p_afterCreate = None, p_beforeUpdate = None,
      p_afterUpdate = None, p_beforeDestroy = None,
      p_handleError = Some (\<lambda>e ctx. Inl (Error ''reporter is down''))\<rparr>"

definition ex_logger :: plugin where
  "ex_logger =
     \<lparr>pname = ''logger'', p_beforeCreate = Some (\<lambda>c. Inr c), p_afterCreate = Some (\<lambda>r. Inr ()),
      p_beforeUpdate = None, p_afterUpdate = None, p_beforeDestroy = None,
      p_handleError = Some (\<lambda>e ctx. Inr ())\<rparr>"

definition ex_plugins :: system where
  "ex_plugins = snd (create ''uuid-1''
      \<lparr>cid = Some ''count'', ctype = ''state'', initialValue = JNum 0, cdependencies = None\<rparr>
      (ComponentSystem (ex_config\<lparr>sc_plugins := Some [ex_failing_plugin, ex_logger],
                                  sc_middleware := Some [ex_validation]\<rparr>)))"

definition ex_audit :: middleware where
  "ex_audit =
     \<lparr>mname = ''audit'', m_before = None,
      m_after = Some (\<lambda>v ctx. Inl (Error ''audit is down'')),
      m_error = Some (\<lambda>e ctx. Inr ())\<rparr>"

definition ex_audited :: system where
  "ex_audited = snd (create ''uuid-1''
      \<lparr>cid = Some ''count'', ctype = ''state'', initialValue = JNum 0, cdependencies = None\<rparr>
      (ComponentSystem (ex_config\<lparr>sc_plugins := Some [ex_logger],
                                  sc_middleware := Some [ex_validation, ex_audit]\<rparr>)))"

text \<open>
  A plugin whose \<^verbatim>\<open>beforeUpdate\<close> hook refuses 13 and whose \<^verbatim>\<open>afterUpdate\<close> hook throws at
  7, and a middleware whose \<^verbatim>\<open>after\<close> handler throws at 99: with the validation
  middleware, every stage of a mutation of \<^verbatim>\<open>count\<close> can fail. In \<open>ex_mirrored\<close> the caller
  has made the reactive \<^verbatim>\<open>mirror\<close>, whose value is \<^verbatim>\<open>null\<close>, a dependent of \<^verbatim>\<open>count\<close>: the
  mutator of \<^verbatim>\<open>mirror\<close> rejects when \<^verbatim>\<open>count\<close> propagates to it. \<open>ex_failed\<close> is the state
  after the mutation of \<^verbatim>\<open>count\<close> to 99 has failed.
\<close>

definition ex_guard :: plugin where
  "ex_guard =
     \<lparr>pname = ''guard'', p_beforeCreate = None, p_afterCreate = None,
      p_beforeUpdate = Some (\<lambda>v old. if v = JNum 13 then Inl (Error ''13 is refused'') else Inr v),
      p_afterUpdate = Some (\<lambda>v. if v = JNum 7 then Inl (Error ''7 is reported'') else Inr ()),
      p_beforeDestroy = None,
      p_handleError = Some (\<lambda>e ctx. Inr ())\<rparr>"

definition ex_limit :: middleware where
  "ex_limit =
     \<lparr>mname = ''limit'', m_before = None,
      m_after = Some (\<lambda>v ctx. if v = JNum 99 then Inl (Error ''limit exceeded'') else Inr v),
      m_error = Some (\<lambda>e ctx. Inr ())\<rparr>"

definition ex_staged :: system where
  "ex_staged = snd (create ''uuid-1''
      \<lparr>cid = Some ''count'', ctype = ''state'', initialValue = JNum 0, cdependencies = None\<rparr>
      (ComponentSystem (ex_config\<lparr>sc_plugins := Some [ex_guard],
                                  sc_middleware := Some [ex_validation, ex_limit]\<rparr>)))"

definition ex_mirrored :: system where
  "ex_mirrored = dependents_add 0 ''mirror'' (snd (create ''uuid-2''
      \<lparr>cid = Some ''mirror'', ctype = ''state'', initialValue = JNull,
       cdependencies = Some [''count'']\<rparr> ex_staged))"

definition ex_failed :: system where
  "ex_failed =
     (case set_reactive 6 0 (JNum 99) ex_staged of Some (_, s) \<Rightarrow> s | None \<Rightarrow> ex_staged)"

text \<open>A subscriber (the callback 7) of \<^verbatim>\<open>count\<close>, a commit, and a second \<^verbatim>\<open>create\<close> of \<^verbatim>\<open>count\<close>.\<close>

definition ex_subscribed :: system where
  "ex_subscribed = subscribe ''count'' 7 ex_count"

definition ex_committed :: system where
  "ex_committed =
     (case set_reactive 4 0 (JNum 1) ex_subscribed of Some (_, s) \<Rightarrow> s | None \<Rightarrow> ex_subscribed)"

definition ex_recreate :: reactiveConfig where
  "ex_recreate = \<lparr>cid = Some ''count'', ctype = ''state'', initialValue = JNum 5, cdependencies = None\<rparr>"

text \<open>
  \<open>ex_replaced\<close> is the state after \<^verbatim>\<open>count\<close>, committed once, has been created a second
  time; \<open>ex_old_handle_commits\<close> are three commits through the handle that the second
  \<^verbatim>\<open>create\<close> has replaced in the registry.
\<close>

definition ex_replaced :: system where
  "ex_replaced = snd (create ''uuid-2'' ex_recreate ex_committed)"

definition ex_old_handle_commits :: "(jsvalue list \<times> system) option" where
  "ex_old_handle_commits = commits 4 0 [JNum 7, JNum 8, JNum 9] ex_replaced"

text \<open>
  Three mutable reactives A, B, C; in \<open>ex_chain\<close> the caller has made B a dependent of A
  and C a dependent of B, in \<open>ex_cycle\<close> also A a dependent of C. \<open>cyclic\<close> holds of the
  states with this cycle, without plugins and middleware; \<open>diverging n\<close> says that no
  mutation and no propagation pass on the cycle returns within the fuel \<open>n\<close>.
\<close>

definition ex_abc :: system where
  "ex_abc =
     snd (create ''uuid-3'' \<lparr>cid = Some ''C'', ctype = ''state'', initialValue = JNum 0, cdependencies = None\<rparr>
       (snd (create ''uuid-2'' \<lparr>cid = Some ''B'', ctype = ''state'', initialValue = JNum 0, cdependencies = None\<rparr>
         (snd (create ''uuid-1'' \<lparr>cid = Some ''A'', ctype = ''state'', initialValue = JNum 0, cdependencies = None\<rparr>
           (ComponentSystem ex_config))))))"

definition ex_chain :: system where
  "ex_chain = dependents_add 1 ''C'' (dependents_add 0 ''B'' ex_abc)"

definition ex_cycle :: system where
  "ex_cycle = dependents_add 2 ''A'' ex_chain"

definition cycle_ids :: "string set" where
  "cycle_ids = {''A'', ''B'', ''C''}"

definition cyclic :: "system \<Rightarrow> bool" where
  "cyclic sys \<longleftrightarrow>
     plugins sys = [] \<and> middleware sys = [] \<and> batchQueue sys = [] \<and>
     (\<forall>i \<in> cycle_ids. \<exists>d j. reactives sys i = Some d \<and> has_set (heap sys d) \<and>
         j \<in> cycle_ids \<and> dependents (heap sys d) = [j])"

definition diverging :: "nat \<Rightarrow> bool" where
  "diverging n \<longleftrightarrow>
     (\<forall>s i d v. cyclic s \<and> i \<in> cycle_ids \<and> reactives s i = Some d \<longrightarrow>
        set_reactive n d v s = None \<and> updateReactiveValue n d v s = None \<and>
        notifyDependents n d s = None \<and> notifyDependents_loop n {} [i] s = None)"

text \<open>
  Operations for \<^verbatim>\<open>batch\<close>: \<^verbatim>\<open>async () => await reactive.set!(v)\<close> for a reactive with a
  mutator, and an operation that rejects.
\<close>

definition set_operation :: "nat \<Rightarrow> jsvalue \<Rightarrow> operation" where
  "set_operation r v n sys = set_reactive n r v sys"

definition failing_operation :: "jserror \<Rightarrow> operation" where
  "failing_operation e n sys = Some (Inl e, sys)"

text \<open>Four commits to \<^verbatim>\<open>count\<close>, one after the other, with history size 3.\<close>

definition ex_four_commits :: "(jsvalue list \<times> system) option" where
  "ex_four_commits = commits 4 0 [JNum 1, JNum 2, JNum 3, JNum 4] ex_count"

section \<open>Lemmas\<close>

subsection \<open>Hooks and handlers change the trace only\<close>

lemma runPluginHook_loop_only_trace:
  "\<exists>evs. snd (runPluginHook_loop hook sel ps v sys) = sys\<lparr>trace := trace sys @ evs\<rparr>
      \<and> list_all user_call evs"
proof (induction ps arbitrary: v sys)
  case Nil
  show ?case by (auto intro!: exI[of _ "[]"])
next
  case (Cons p ps)
  show ?case
  proof (cases "sel p")
    case None
    then show ?thesis using Cons.IH[of v sys] by auto
  next
    case (Some h)
    show ?thesis
    proof (cases "h v")
      case (Inl e)
      then show ?thesis using Some by (auto simp: logEvent_def intro!: exI[of _ "[HookCalled hook (pname p)]"])
    next
      case (Inr w)
      obtain evs where "snd (runPluginHook_loop hook sel ps w (logEvent (HookCalled hook (pname p)) sys))
          = (logEvent (HookCalled hook (pname p)) sys)\<lparr>trace := trace (logEvent (HookCalled hook (pname p)) sys) @ evs\<rparr>"
        and "list_all user_call evs"
        using Cons.IH by blast
      then show ?thesis using Some Inr
        by (auto simp: logEvent_def intro!: exI[of _ "HookCalled hook (pname p) # evs"])
    qed
  qed
qed

lemma runMiddleware_loop_only_trace:
  "\<exists>evs. snd (runMiddleware_loop phase r ts ms v sys) = sys\<lparr>trace := trace sys @ evs\<rparr>
      \<and> list_all user_call evs"
proof (induction ms arbitrary: v sys)
  case Nil
  show ?case by (auto intro!: exI[of _ "[]"])
next
  case (Cons m ms)
  let ?sel = "if phase = ''before'' then m_before m else m_after m"
  let ?ev = "MiddlewareCalled phase (mname m)"
  show ?case
  proof (cases ?sel)
    case None
    then show ?thesis using Cons.IH[of v sys] by auto
  next
    case (Some h)
    show ?thesis
    proof (cases "h v \<lparr>mc_reactive = heap sys r, mc_phase = phase, mc_timestamp = ts\<rparr>")
      case (Inl e)
      then show ?thesis using Some by (auto simp: logEvent_def intro!: exI[of _ "[?ev]"])
    next
      case (Inr w)
      obtain evs where "snd (runMiddleware_loop phase r ts ms w (logEvent ?ev sys))
          = (logEvent ?ev sys)\<lparr>trace := trace (logEvent ?ev sys) @ evs\<rparr>"
        and "list_all user_call evs"
        using Cons.IH by blast
      then show ?thesis using Some Inr
        by (auto simp: logEvent_def intro!: exI[of _ "?ev # evs"])
    qed
  qed
qed

lemma handleError_plugins_only_trace:
  "\<exists>evs. snd (handleError_plugins e ctx ps sys) = sys\<lparr>trace := trace sys @ evs\<rparr>
      \<and> list_all user_call evs"
proof (induction ps arbitrary: sys)
  case Nil
  show ?case by (auto intro!: exI[of _ "[]"])
next
  case (Cons p ps)
  let ?ev = "HookCalled ''handleError'' (pname p)"
  show ?case
  proof (cases "p_handleError p")
    case None
    then show ?thesis using Cons.IH[of sys] by auto
  next
    case (Some h)
    show ?thesis
    proof (cases "h e ctx")
      case (Inl e')
      then show ?thesis using Some by (auto simp: logEvent_def intro!: exI[of _ "[?ev]"])
    next
      case (Inr w)
      obtain evs where "snd (handleError_plugins e ctx ps (logEvent ?ev sys))
          = (logEvent ?ev sys)\<lparr>trace := trace (logEvent ?ev sys) @ evs\<rparr>"
        and "list_all user_call evs"
        using Cons.IH by blast
      then show ?thesis using Some Inr
        by (auto simp: logEvent_def intro!: exI[of _ "?ev # evs"])
    qed
  qed
qed

lemma handleError_middleware_only_trace:
  "\<exists>evs. snd (handleError_middleware e r ms sys) = sys\<lparr>trace := trace sys @ evs\<rparr>
      \<and> list_all user_call evs"
proof (induction ms arbitrary: sys)
  case Nil
  show ?case by (auto intro!: exI[of _ "[]"])
next
  case (Cons m ms)
  let ?ev = "MiddlewareCalled ''error'' (mname m)"
  show ?case
  proof (cases "m_error m")
    case None
    then show ?thesis using Cons.IH[of sys] by auto
  next
    case (Some h)
    show ?thesis
    proof (cases "h e \<lparr>mc_reactive = heap sys r, mc_phase = ''error'', mc_timestamp = clock sys\<rparr>")
      case (Inl e')
      then show ?thesis using Some by (auto simp: logEvent_def intro!: exI[of _ "[?ev]"])
    next
      case (Inr w)
      obtain evs where "snd (handleError_middleware e r ms (logEvent ?ev sys))
          = (logEvent ?ev sys)\<lparr>trace := trace (logEvent ?ev sys) @ evs\<rparr>"
        and "list_all user_call evs"
        using Cons.IH by blast
      then show ?thesis using Some Inr
        by (auto simp: logEvent_def intro!: exI[of _ "?ev # evs"])
    qed
  qed
qed

lemma handleError_only_trace:
  "\<exists>evs. snd (handleError e r phase sys) = (setErrorStatus e r sys)\<lparr>trace := trace sys @ evs\<rparr>
      \<and> list_all user_call evs"
proof -
  let ?s1 = "setErrorStatus e r sys"
  let ?ctx = "\<lparr>ec_phase = phase, ec_type = mtype (meta (heap ?s1 r))\<rparr>"
  have t1: "trace ?s1 = trace sys" by (simp add: setErrorStatus_def)
  obtain a s2 where p: "handleError_plugins e ?ctx (map snd (plugins ?s1)) ?s1 = (a, s2)"
    by force
  obtain evs where e1: "s2 = ?s1\<lparr>trace := trace ?s1 @ evs\<rparr>" "list_all user_call evs"
    using handleError_plugins_only_trace[of e ?ctx "map snd (plugins ?s1)" ?s1] p by auto
  show ?thesis
  proof (cases a)
    case (Inl e')
    then show ?thesis using p e1 t1 by (auto simp: handleError_def Let_def)
  next
    case (Inr u)
    obtain b s3 where m: "handleError_middleware e r (middleware s2) s2 = (b, s3)"
      by force
    obtain evs2 where e2: "s3 = s2\<lparr>trace := trace s2 @ evs2\<rparr>" "list_all user_call evs2"
      using handleError_middleware_only_trace[of e r "middleware s2" s2] m by auto
    have "s3 = ?s1\<lparr>trace := trace sys @ (evs @ evs2)\<rparr>"
      using e1 e2 t1 by simp
    moreover have "list_all user_call (evs @ evs2)" using e1 e2 by simp
    ultimately show ?thesis using p m Inr
      by (cases b) (auto simp: handleError_def Let_def simp del: append_assoc)
  qed
qed

subsection \<open>The frame of a mutation\<close>

lemma frame_refl: "frame sys sys"
  by (auto simp: frame_def intro!: exI[of _ "[]"])

lemma frame_trans:
  assumes "frame s1 s2" and "frame s2 s3"
  shows "frame s1 s3"
proof -
  obtain e1 where e1: "trace s2 = trace s1 @ e1" "\<forall>c v. CallbackInvoked c v \<notin> set e1"
      "\<forall>q. (\<forall>x. Committed q x \<notin> set e1) \<longrightarrow> rvalue (heap s2 q) = rvalue (heap s1 q)"
      "\<forall>i. (\<forall>q x. Committed q x \<in> set e1 \<longrightarrow> rid (heap s1 q) \<noteq> i) \<longrightarrow> history s2 i = history s1 i"
    using assms(1) unfolding frame_def by blast
  obtain e2 where e2: "trace s3 = trace s2 @ e2" "\<forall>c v. CallbackInvoked c v \<notin> set e2"
      "\<forall>q. (\<forall>x. Committed q x \<notin> set e2) \<longrightarrow> rvalue (heap s3 q) = rvalue (heap s2 q)"
      "\<forall>i. (\<forall>q x. Committed q x \<in> set e2 \<longrightarrow> rid (heap s2 q) \<noteq> i) \<longrightarrow> history s3 i = history s2 i"
    using assms(2) unfolding frame_def by blast
  have rid: "\<forall>q. rid (heap s2 q) = rid (heap s1 q)" using assms(1) unfolding frame_def by blast
  have tr: "trace s3 = trace s1 @ (e1 @ e2)" using e1(1) e2(1) by simp
  have cb: "\<forall>c v. CallbackInvoked c v \<notin> set (e1 @ e2)" using e1(2) e2(2) by simp
  have va: "\<forall>q. (\<forall>x. Committed q x \<notin> set (e1 @ e2)) \<longrightarrow> rvalue (heap s3 q) = rvalue (heap s1 q)"
    using e1(3) e2(3) by simp
  have hi: "\<forall>i. (\<forall>q x. Committed q x \<in> set (e1 @ e2) \<longrightarrow> rid (heap s1 q) \<noteq> i)
             \<longrightarrow> history s3 i = history s1 i"
  proof (intro allI impI)
    fix i assume a: "\<forall>q x. Committed q x \<in> set (e1 @ e2) \<longrightarrow> rid (heap s1 q) \<noteq> i"
    have "history s2 i = history s1 i" using e1(4) a by auto
    moreover have "history s3 i = history s2 i" using e2(4) a rid by auto
    ultimately show "history s3 i = history s1 i" by simp
  qed
  have ex: "\<exists>evs. trace s3 = trace s1 @ evs \<and> (\<forall>c v. CallbackInvoked c v \<notin> set evs) \<and>
        (\<forall>q. (\<forall>x. Committed q x \<notin> set evs) \<longrightarrow> rvalue (heap s3 q) = rvalue (heap s1 q)) \<and>
        (\<forall>i. (\<forall>q x. Committed q x \<in> set evs \<longrightarrow> rid (heap s1 q) \<noteq> i)
             \<longrightarrow> history s3 i = history s1 i)"
    using tr cb va hi by blast
  have rest: "reactives s3 = reactives s1 \<and> plugins s3 = plugins s1 \<and>
     middleware s3 = middleware s1 \<and> options s3 = options s1 \<and>
     subscriptions s3 = subscriptions s1 \<and> next_ref s3 = next_ref s1 \<and>
     clock s3 = clock s1 \<and>
     (batchQueue s1 = [] \<longrightarrow> batchQueue s3 = []) \<and>
     (\<forall>q. rid (heap s3 q) = rid (heap s1 q) \<and> has_set (heap s3 q) = has_set (heap s1 q) \<and>
          dependents (heap s3 q) = dependents (heap s1 q) \<and>
          dependencies (heap s3 q) = dependencies (heap s1 q))"
    using assms unfolding frame_def by simp
  have c1: "\<forall>q. updateCount (meta (heap s1 q)) \<le> updateCount (meta (heap s2 q))"
    using assms(1) unfolding frame_def by blast
  have c2: "\<forall>q. updateCount (meta (heap s2 q)) \<le> updateCount (meta (heap s3 q))"
    using assms(2) unfolding frame_def by blast
  have cnt: "\<forall>q. updateCount (meta (heap s1 q)) \<le> updateCount (meta (heap s3 q))"
    using c1 c2 le_trans by blast
  show ?thesis unfolding frame_def using rest ex cnt by blast
qed

lemma frame_only_trace:
  assumes "list_all user_call evs"
  shows "frame sys (sys\<lparr>trace := trace sys @ evs\<rparr>)"
proof -
  have "\<forall>ev \<in> set evs. user_call ev" using assms by (simp add: list_all_iff)
  then have "(\<forall>c v. CallbackInvoked c v \<notin> set evs) \<and> (\<forall>q x. Committed q x \<notin> set evs)"
    by auto
  then show ?thesis
    unfolding frame_def by (auto intro!: exI[of _ evs])
qed

lemma frame_logEvent_SetCalled: "frame sys (logEvent (SetCalled r v) sys)"
  unfolding frame_def logEvent_def by (auto intro!: exI[of _ "[SetCalled r v]"])

lemma frame_runPluginHook:
  assumes "runPluginHook hook sel v sys = (a, sys')"
  shows "frame sys sys'"
  using runPluginHook_loop_only_trace[of hook sel "map snd (plugins sys)" v sys] assms
    frame_only_trace[of _ sys]
  by (auto simp: runPluginHook_def)

lemma frame_runMiddleware:
  assumes "runMiddleware phase v r sys = (a, sys')"
  shows "frame sys sys'"
  using runMiddleware_loop_only_trace[of phase r "clock sys" "middleware sys" v sys] assms
    frame_only_trace[of _ sys]
  by (auto simp: runMiddleware_def)

lemma frame_setErrorStatus: "frame sys (setErrorStatus e r sys)"
  unfolding frame_def setErrorStatus_def by (auto intro!: exI[of _ "[]"])

lemma frame_handleError:
  assumes "handleError e r phase sys = (e', sys')"
  shows "frame sys sys'"
proof -
  obtain evs where ev: "sys' = (setErrorStatus e r sys)\<lparr>trace := trace sys @ evs\<rparr>"
      "list_all user_call evs"
    using handleError_only_trace[of e r phase sys] assms by auto
  have "trace (setErrorStatus e r sys) = trace sys" by (simp add: setErrorStatus_def)
  then have "frame (setErrorStatus e r sys) sys'"
    using frame_only_trace[OF ev(2), of "setErrorStatus e r sys"] ev(1) by simp
  then show ?thesis using frame_trans[OF frame_setErrorStatus] by blast
qed

lemma frame_set_catch:
  assumes "set_catch e r sys = Some (res, sys')"
  shows "frame sys sys'"
  using assms frame_handleError unfolding set_catch_def by (auto split: prod.splits)

lemma frame_commit:
  "frame sys (if enableHistory (options sys)
              then updateHistory (rid (heap sys r)) old (commitValue r v sys)
              else commitValue r v sys)"
  unfolding frame_def updateHistory_def commitValue_def logEvent_def Let_def
  by (auto intro!: exI[of _ "[Committed r v]"])

lemma frame_defer:
  assumes "batchQueue sys \<noteq> []"
  shows "frame sys (sys\<lparr>batchQueue := q\<rparr>)"
  using assms unfolding frame_def by (auto intro!: exI[of _ "[]"])

lemma inside_refl: "inside S sys sys"
  by (simp add: inside_def frame_refl)

lemma inside_trans: "inside S s1 s2 \<Longrightarrow> inside S s2 s3 \<Longrightarrow> inside S s1 s3"
  using frame_trans by (auto simp: inside_def)

lemma inside_frame: "inside S s s' \<Longrightarrow> frame s s'"
  by (simp add: inside_def)

lemma closed_frame:
  assumes "closed_under_dependents S s" and "frame s s'"
  shows "closed_under_dependents S s'"
  using assms unfolding closed_under_dependents_def frame_def by simp

lemma frame_fields:
  assumes "frame s s'"
  shows "rid (heap s' q) = rid (heap s q)" and "dependents (heap s' q) = dependents (heap s q)"
    and "has_set (heap s' q) = has_set (heap s q)" and "reactives s' = reactives s"
    and "options s' = options s" and "batchQueue s = [] \<Longrightarrow> batchQueue s' = []"
    and "plugins s' = plugins s" and "middleware s' = middleware s"
  using assms unfolding frame_def by simp_all

lemma inside_only_trace:
  assumes "list_all user_call evs"
  shows "inside S sys (sys\<lparr>trace := trace sys @ evs\<rparr>)"
  using frame_only_trace[OF assms] by (simp add: inside_def)

lemma inside_logEvent_SetCalled: "inside S sys (logEvent (SetCalled r v) sys)"
  using frame_logEvent_SetCalled by (simp add: inside_def logEvent_def)

lemma inside_runPluginHook:
  assumes "runPluginHook hook sel v sys = (a, sys')"
  shows "inside S sys sys'"
  using runPluginHook_loop_only_trace[of hook sel "map snd (plugins sys)" v sys] assms
    inside_only_trace[of _ S sys]
  by (auto simp: runPluginHook_def)

lemma inside_runMiddleware:
  assumes "runMiddleware phase v r sys = (a, sys')"
  shows "inside S sys sys'"
  using runMiddleware_loop_only_trace[of phase r "clock sys" "middleware sys" v sys] assms
    inside_only_trace[of _ S sys]
  by (auto simp: runMiddleware_def)

lemma inside_set_catch:
  assumes "set_catch e r sys = Some (res, sys')"
  shows "inside S sys sys'"
proof -
  obtain e' where h: "handleError e r ''update'' sys = (e', sys')"
    using assms unfolding set_catch_def by (auto split: prod.splits)
  obtain evs where "sys' = (setErrorStatus e r sys)\<lparr>trace := trace sys @ evs\<rparr>"
    using handleError_only_trace[of e r "''update''" sys] h by auto
  then have "history sys' = history sys" by (simp add: setErrorStatus_def)
  then show ?thesis using frame_handleError[OF h] by (simp add: inside_def)
qed

lemma inside_commit:
  assumes "rid (heap sys r) \<in> S"
  shows "inside S sys (if enableHistory (options sys)
              then updateHistory (rid (heap sys r)) old (commitValue r v sys)
              else commitValue r v sys)"
  using assms frame_commit[of sys r old v]
  by (auto simp: inside_def updateHistory_def commitValue_def logEvent_def Let_def)

lemma inside_defer:
  assumes "batchQueue sys \<noteq> []"
  shows "inside S sys (sys\<lparr>batchQueue := q\<rparr>)"
  using frame_defer[OF assms] by (simp add: inside_def)

text \<open>The induction on the fuel, one step for each function.\<close>

lemma set_reactive_Suc_inside:
  assumes IH: "stays_inside S n"
    and cl: "closed_under_dependents S sys" and rS: "rid (heap sys r) \<in> S"
    and dS: "set (dependents (heap sys r)) \<subseteq> S"
    and run: "set_reactive (Suc n) r v sys = Some (res, sys')"
  shows "inside S sys sys'"
proof -
  obtain a s1 where rm: "runMiddleware ''before'' v r (logEvent (SetCalled r v) sys) = (a, s1)"
    by force
  have f1: "inside S sys s1"
    using inside_trans[OF inside_logEvent_SetCalled inside_runMiddleware[OF rm]] .
  note ff1 = frame_fields[OF inside_frame[OF f1]]
  show ?thesis
  proof (cases a)
    case (Inl e)
    then have "set_catch e r s1 = Some (res, sys')" using run rm by simp
    then show ?thesis using inside_trans[OF f1 inside_set_catch] by blast
  next
    case (Inr pv)
    then obtain b s2 where up: "updateReactiveValue n r pv s1 = Some (b, s2)"
      using run rm by (auto split: option.splits)
    have "inside S s1 s2"
      using IH closed_frame[OF cl inside_frame[OF f1]] rS dS ff1(1,2) up
      unfolding stays_inside_def by metis
    then have f2: "inside S sys s2" using inside_trans[OF f1] by blast
    show ?thesis
    proof (cases b)
      case (Inl e)
      then have "set_catch e r s2 = Some (res, sys')" using run rm Inr up by simp
      then show ?thesis using inside_trans[OF f2 inside_set_catch] by blast
    next
      case Inr2: (Inr u)
      obtain c s3 where ra: "runMiddleware ''after'' (rvalue (heap s2 r)) r s2 = (c, s3)"
        by force
      have f3: "inside S sys s3" using inside_trans[OF f2 inside_runMiddleware[OF ra]] .
      show ?thesis
      proof (cases c)
        case (Inl e)
        then have "set_catch e r s3 = Some (res, sys')" using run rm Inr up Inr2 ra by simp
        then show ?thesis using inside_trans[OF f3 inside_set_catch] by blast
      next
        case (Inr w)
        then have "sys' = s3" using run rm \<open>a = Inr pv\<close> up Inr2 ra by simp
        then show ?thesis using f3 by simp
      qed
    qed
  qed
qed

lemma updateReactiveValue_Suc_inside:
  assumes IH: "stays_inside S n"
    and cl: "closed_under_dependents S sys" and rS: "rid (heap sys r) \<in> S"
    and dS: "set (dependents (heap sys r)) \<subseteq> S"
    and run: "updateReactiveValue (Suc n) r v sys = Some (res, sys')"
  shows "inside S sys sys'"
proof (cases "batchUpdates (options sys) \<and> length (batchQueue sys) > 0")
  case True
  then have "sys' = sys\<lparr>batchQueue := map_set (rid (heap sys r)) v (batchQueue sys)\<rparr>"
    using run by auto
  then show ?thesis using inside_defer[of sys] True by auto
next
  case False
  obtain a s1 where hk: "runPluginHook ''beforeUpdate'' (sel_beforeUpdate (rvalue (heap sys r))) v sys = (a, s1)"
    by force
  have f1: "inside S sys s1" using inside_runPluginHook[OF hk] .
  note ff1 = frame_fields[OF inside_frame[OF f1]]
  show ?thesis
  proof (cases a)
    case (Inl e)
    then have "sys' = s1" using run False hk by auto
    then show ?thesis using f1 by simp
  next
    case (Inr pv)
    let ?s3 = "if enableHistory (options s1)
               then updateHistory (rid (heap s1 r)) (rvalue (heap sys r)) (commitValue r pv s1)
               else commitValue r pv s1"
    have "inside S s1 ?s3" using inside_commit[of s1 r S] rS ff1(1) by simp
    then have f3: "inside S sys ?s3" using inside_trans[OF f1] by blast
    note ff3 = frame_fields[OF inside_frame[OF f3]]
    obtain b s4 where nd: "notifyDependents n r ?s3 = Some (b, s4)"
      using run False hk Inr by (auto split: option.splits)
    have "inside S ?s3 s4"
      using IH closed_frame[OF cl inside_frame[OF f3]] dS ff3(2)[of r] nd
      unfolding stays_inside_def by metis
    then have f4: "inside S sys s4" using inside_trans[OF f3] by blast
    show ?thesis
    proof (cases b)
      case (Inl e)
      then have "sys' = s4" using run False hk Inr nd by auto
      then show ?thesis using f4 by simp
    next
      case Inr2: (Inr u)
      obtain c s5 where ha: "runPluginHook ''afterUpdate'' sel_afterUpdate pv s4 = (c, s5)"
        by force
      have "sys' = s5" using run False hk Inr nd Inr2 ha by (cases c) auto
      then show ?thesis using inside_trans[OF f4 inside_runPluginHook[OF ha]] by simp
    qed
  qed
qed

lemma notifyDependents_loop_Suc_inside:
  assumes IH: "stays_inside S n"
    and cl: "closed_under_dependents S sys" and qS: "set queue \<subseteq> S"
    and run: "notifyDependents_loop (Suc n) visited queue sys = Some (res, sys')"
  shows "inside S sys sys'"
proof (cases queue)
  case Nil
  then show ?thesis using run inside_refl by simp
next
  case (Cons i rest)
  have IHl: "\<And>vis q s res s'. closed_under_dependents S s \<Longrightarrow> set q \<subseteq> S \<Longrightarrow>
      notifyDependents_loop n vis q s = Some (res, s') \<Longrightarrow> inside S s s'"
    using IH unfolding stays_inside_def by blast
  have iS: "i \<in> S" and restS: "set rest \<subseteq> S" using qS Cons by simp_all
  show ?thesis
  proof (cases "i \<in> visited")
    case True
    then show ?thesis using run Cons IHl[OF cl restS] by simp
  next
    case False
    show ?thesis
    proof (cases "getReactive i sys")
      case None
      then show ?thesis using run Cons False IHl[OF cl restS] by simp
    next
      case (Some d)
      then have dS: "rid (heap sys d) \<in> S" "set (dependents (heap sys d)) \<subseteq> S"
        using cl iS unfolding closed_under_dependents_def getReactive_def by blast+
      show ?thesis
      proof (cases "has_set (heap sys d)")
        case nos: False
        have q2: "set (rest @ dependents (heap sys d)) \<subseteq> S" using restS dS by simp
        have "notifyDependents_loop n (insert i visited) (rest @ dependents (heap sys d)) sys
              = Some (res, sys')"
          using run Cons False Some nos by simp
        then show ?thesis using IHl[OF cl q2] by blast
      next
        case True
        then obtain b s1 where st: "set_reactive n d (rvalue (heap sys d)) sys = Some (b, s1)"
          using run Cons False Some by (auto split: option.splits)
        have f1: "inside S sys s1"
          using IH cl dS st unfolding stays_inside_def by metis
        note ff1 = frame_fields[OF inside_frame[OF f1]]
        show ?thesis
        proof (cases b)
          case (Inl e)
          then have "sys' = s1" using run Cons False Some True st by simp
          then show ?thesis using f1 by simp
        next
          case (Inr u)
          then have r2: "notifyDependents_loop n (insert i visited) (rest @ dependents (heap s1 d)) s1
                = Some (res, sys')"
            using run Cons False Some True st by simp
          have "set (rest @ dependents (heap s1 d)) \<subseteq> S" using restS dS ff1(2) by simp
          then have "inside S s1 sys'"
            using IHl[OF closed_frame[OF cl inside_frame[OF f1]] _ r2] by blast
          then show ?thesis using inside_trans[OF f1] by blast
        qed
      qed
    qed
  qed
qed

lemma stays_inside_all: "stays_inside S n"
proof (induction n)
  case 0
  show ?case by (simp add: stays_inside_def)
next
  case (Suc n)
  have 3: "inside S s s'"
    if "closed_under_dependents S s" "set (dependents (heap s r)) \<subseteq> S"
       "notifyDependents (Suc n) r s = Some (res, s')" for r s res s'
    using Suc that unfolding stays_inside_def by simp
  show ?case
    unfolding stays_inside_def
  proof (intro conjI allI impI)
    fix r v s res s'
    assume "closed_under_dependents S s \<and> rid (heap s r) \<in> S \<and>
         set (dependents (heap s r)) \<subseteq> S \<and> set_reactive (Suc n) r v s = Some (res, s')"
    then show "inside S s s'" using set_reactive_Suc_inside[OF Suc] by blast
  next
    fix r v s res s'
    assume "closed_under_dependents S s \<and> rid (heap s r) \<in> S \<and>
         set (dependents (heap s r)) \<subseteq> S \<and> updateReactiveValue (Suc n) r v s = Some (res, s')"
    then show "inside S s s'" using updateReactiveValue_Suc_inside[OF Suc] by blast
  next
    fix r s res s'
    assume "closed_under_dependents S s \<and>
         set (dependents (heap s r)) \<subseteq> S \<and> notifyDependents (Suc n) r s = Some (res, s')"
    then show "inside S s s'" using 3 by blast
  next
    fix vis q s res s'
    assume "closed_under_dependents S s \<and> set q \<subseteq> S \<and>
         notifyDependents_loop (Suc n) vis q s = Some (res, s')"
    then show "inside S s s'" using notifyDependents_loop_Suc_inside[OF Suc] by blast
  qed
qed

lemma closed_UNIV: "closed_under_dependents UNIV s"
  by (simp add: closed_under_dependents_def)

lemma frame_set_reactive: "set_reactive n r v s = Some (res, s') \<Longrightarrow> frame s s'"
  using stays_inside_all[of UNIV n] closed_UNIV unfolding stays_inside_def inside_def by blast

lemma frame_updateReactiveValue: "updateReactiveValue n r v s = Some (res, s') \<Longrightarrow> frame s s'"
  using stays_inside_all[of UNIV n] closed_UNIV unfolding stays_inside_def inside_def by blast

lemma frame_notifyDependents: "notifyDependents n r s = Some (res, s') \<Longrightarrow> frame s s'"
  using stays_inside_all[of UNIV n] closed_UNIV unfolding stays_inside_def inside_def by blast

lemma frame_notifyDependents_loop: "notifyDependents_loop n vis q s = Some (res, s') \<Longrightarrow> frame s s'"
  using stays_inside_all[of UNIV n] closed_UNIV unfolding stays_inside_def inside_def by blast

lemma inside_notifyDependents:
  assumes "closed_under_dependents S s" and "set (dependents (heap s r)) \<subseteq> S"
    and "notifyDependents n r s = Some (res, s')"
  shows "inside S s s'"
  using stays_inside_all[of S n] assms unfolding stays_inside_def by blast

subsection \<open>create and removeReactive\<close>

lemma runPluginHook_loop_names:
  "\<exists>names. snd (runPluginHook_loop hook sel ps v sys)
       = sys\<lparr>trace := trace sys @ map (HookCalled hook) names\<rparr>"
proof (induction ps arbitrary: v sys)
  case Nil
  show ?case by (auto intro!: exI[of _ "[]"])
next
  case (Cons p ps)
  show ?case
  proof (cases "sel p")
    case None
    then show ?thesis using Cons.IH[of v sys] by auto
  next
    case (Some h)
    show ?thesis
    proof (cases "h v")
      case (Inl e)
      then show ?thesis using Some by (auto simp: logEvent_def intro!: exI[of _ "[pname p]"])
    next
      case (Inr w)
      obtain names where "snd (runPluginHook_loop hook sel ps w (logEvent (HookCalled hook (pname p)) sys))
          = (logEvent (HookCalled hook (pname p)) sys)\<lparr>trace := trace (logEvent (HookCalled hook (pname p)) sys) @ map (HookCalled hook) names\<rparr>"
        using Cons.IH by blast
      then show ?thesis using Some Inr
        by (auto simp: logEvent_def intro!: exI[of _ "pname p # names"])
    qed
  qed
qed

lemma runPluginHook_loop_result_indep:
  "fst (runPluginHook_loop hook sel ps v sys) = fst (runPluginHook_loop hook sel ps v sys2)"
  by (induction ps arbitrary: v sys sys2) (auto split: option.splits sum.splits)

lemma createReactive_facts:
  assumes "createReactive uuid config sys = (r, sys')"
  shows "r = next_ref sys" and "reactives sys' = (reactives sys)(rid (heap sys' r) \<mapsto> r)"
    and "\<forall>q. q \<noteq> r \<longrightarrow> heap sys' q = heap sys q"
    and "history sys' = history sys" and "subscriptions sys' = subscriptions sys"
    and "trace sys' = trace sys" and "plugins sys' = plugins sys"
    and "dependents (heap sys' r) = []"
    and "dependencies (heap sys' r) = new_Set (or_default (cdependencies config) [])"
    and "has_set (heap sys' r) = (ctype config \<noteq> ''readonly'')"
    and "rvalue (heap sys' r) = initialValue config"
  using assms by (auto simp: createReactive_def registerReactive_def)

lemma runPluginHook_names:
  assumes "runPluginHook hook sel v sys = (a, sys')"
  shows "\<exists>names. sys' = sys\<lparr>trace := trace sys @ map (HookCalled hook) names\<rparr>"
  using runPluginHook_loop_names[of hook sel "map snd (plugins sys)" v sys] assms
  by (auto simp: runPluginHook_def)

lemma create_Inr:
  assumes "create uuid config sys = (Inr r, sys')"
  shows "\<exists>pc n1 n2 s2.
      fst (runPluginHook ''beforeCreate'' sel_beforeCreate config sys) = Inr pc \<and>
      createReactive uuid pc (sys\<lparr>trace := trace sys @ map (HookCalled ''beforeCreate'') n1\<rparr>) = (r, s2) \<and>
      sys' = s2\<lparr>trace := trace s2 @ map (HookCalled ''afterCreate'') n2\<rparr>"
proof -
  obtain a s1 where b1: "runPluginHook ''beforeCreate'' sel_beforeCreate config sys = (a, s1)" by force
  obtain n1 where s1: "s1 = sys\<lparr>trace := trace sys @ map (HookCalled ''beforeCreate'') n1\<rparr>"
    using runPluginHook_names[OF b1] by blast
  obtain pc where a: "a = Inr pc" using assms b1 by (cases a) (auto simp: create_def)
  obtain r0 s2 where c1: "createReactive uuid pc s1 = (r0, s2)" by force
  obtain c s3 where h2: "runPluginHook ''afterCreate'' sel_afterCreate (Some (heap s2 r0)) s2 = (c, s3)" by force
  obtain n2 where s3: "s3 = s2\<lparr>trace := trace s2 @ map (HookCalled ''afterCreate'') n2\<rparr>"
    using runPluginHook_names[OF h2] by blast
  have fin: "r = r0" "sys' = s3" using assms b1 a c1 h2 by (auto simp: create_def split: sum.splits)
  show ?thesis using b1 a s1 c1 s3 fin by auto
qed

lemma removeReactive_heap: "heap (removeReactive i sys) = heap sys"
proof (cases "reactives sys i")
  case None
  then show ?thesis by (simp add: removeReactive_def)
next
  case (Some r)
  obtain a s1 where h: "runPluginHook ''beforeDestroy'' sel_beforeDestroy (Some (heap sys r)) sys = (a, s1)"
    by force
  obtain ns where "s1 = sys\<lparr>trace := trace sys @ map (HookCalled ''beforeDestroy'') ns\<rparr>"
    using runPluginHook_names[OF h] by blast
  then show ?thesis using Some h by (simp add: removeReactive_def)
qed

lemma removeReactive_reactives: "reactives (removeReactive i sys) = (reactives sys)(i := None)"
proof (cases "reactives sys i")
  case None
  then show ?thesis by (auto simp: removeReactive_def)
next
  case (Some r)
  obtain a s1 where h: "runPluginHook ''beforeDestroy'' sel_beforeDestroy (Some (heap sys r)) sys = (a, s1)"
    by force
  obtain ns where "s1 = sys\<lparr>trace := trace sys @ map (HookCalled ''beforeDestroy'') ns\<rparr>"
    using runPluginHook_names[OF h] by blast
  then show ?thesis using Some h by (simp add: removeReactive_def)
qed

lemma ex_doubled_create:
  "create ''uuid-2''
      \<lparr>cid = Some ''doubled'', ctype = ''computed'', initialValue = JNum 0,
       cdependencies = Some [''count'']\<rparr> ex_count = (Inr 1, ex_doubled)"
proof -
  have "fst (create ''uuid-2''
      \<lparr>cid = Some ''doubled'', ctype = ''computed'', initialValue = JNum 0,
       cdependencies = Some [''count'']\<rparr> ex_count) = Inr 1"
    by code_simp
  then show ?thesis by (simp add: ex_doubled_def prod_eq_iff)
qed



subsection \<open>handleError\<close>

lemma handleError_plugins_trace:
  "snd (handleError_plugins e ctx ps sys) =
     sys\<lparr>trace := trace sys @ map (\<lambda>p. HookCalled ''handleError'' (pname p))
        (called_until_throw (plugin_throws e ctx) (filter (\<lambda>p. p_handleError p \<noteq> None) ps))\<rparr>"
  by (induction ps arbitrary: sys)
     (auto simp: plugin_throws_def logEvent_def split: option.splits sum.splits)

lemma handleError_plugins_isl:
  "isl (fst (handleError_plugins e ctx ps sys)) = list_ex (plugin_throws e ctx) ps"
  by (induction ps arbitrary: sys)
     (auto simp: plugin_throws_def split: option.splits sum.splits)

lemma handleError_middleware_trace:
  "snd (handleError_middleware e r ms sys) =
     sys\<lparr>trace := trace sys @ map (\<lambda>m. MiddlewareCalled ''error'' (mname m))
        (called_until_throw
           (middleware_throws e \<lparr>mc_reactive = heap sys r, mc_phase = ''error'', mc_timestamp = clock sys\<rparr>)
           (filter (\<lambda>m. m_error m \<noteq> None) ms))\<rparr>"
  by (induction ms arbitrary: sys)
     (auto simp: middleware_throws_def logEvent_def split: option.splits sum.splits)

lemma handleError_middleware_isl:
  "isl (fst (handleError_middleware e r ms sys)) =
     list_ex (middleware_throws e \<lparr>mc_reactive = heap sys r, mc_phase = ''error'', mc_timestamp = clock sys\<rparr>) ms"
  by (induction ms arbitrary: sys)
     (auto simp: middleware_throws_def logEvent_def split: option.splits sum.splits)

lemma handleError_state:
  "snd (handleError e r phase sys) =
     (setErrorStatus e r sys)\<lparr>trace :=
       trace sys @
       map (\<lambda>p. HookCalled ''handleError'' (pname p))
         (called_until_throw
            (plugin_throws e \<lparr>ec_phase = phase, ec_type = mtype (meta (heap sys r))\<rparr>)
            (filter (\<lambda>p. p_handleError p \<noteq> None) (map snd (plugins sys)))) @
       (if list_ex (plugin_throws e \<lparr>ec_phase = phase, ec_type = mtype (meta (heap sys r))\<rparr>)
             (map snd (plugins sys))
        then []
        else map (\<lambda>m. MiddlewareCalled ''error'' (mname m))
          (called_until_throw
             (middleware_throws e
                \<lparr>mc_reactive = heap (setErrorStatus e r sys) r, mc_phase = ''error'',
                 mc_timestamp = clock sys\<rparr>)
             (filter (\<lambda>m. m_error m \<noteq> None) (middleware sys))))\<rparr>"
proof -
  let ?s1 = "setErrorStatus e r sys"
  let ?ctx = "\<lparr>ec_phase = phase, ec_type = mtype (meta (heap sys r))\<rparr>"
  have s1: "trace ?s1 = trace sys" "plugins ?s1 = plugins sys" "middleware ?s1 = middleware sys"
    "clock ?s1 = clock sys" "mtype (meta (heap ?s1 r)) = mtype (meta (heap sys r))"
    by (simp_all add: setErrorStatus_def)
  obtain a s2 where p: "handleError_plugins e ?ctx (map snd (plugins sys)) ?s1 = (a, s2)"
    by force
  have s2: "s2 = ?s1\<lparr>trace := trace sys @ map (\<lambda>p. HookCalled ''handleError'' (pname p))
        (called_until_throw (plugin_throws e ?ctx) (filter (\<lambda>p. p_handleError p \<noteq> None) (map snd (plugins sys))))\<rparr>"
    using handleError_plugins_trace[of e ?ctx "map snd (plugins sys)" ?s1] p s1 by simp
  have ia: "isl a = list_ex (plugin_throws e ?ctx) (map snd (plugins sys))"
    using handleError_plugins_isl[of e ?ctx "map snd (plugins sys)" ?s1] p by simp
  show ?thesis
  proof (cases a)
    case (Inl e')
    then have "snd (handleError e r phase sys) = s2"
      using p s1 by (simp add: handleError_def Let_def)
    then show ?thesis using s2 ia Inl by simp
  next
    case (Inr u)
    obtain b s3 where m: "handleError_middleware e r (middleware s2) s2 = (b, s3)" by force
    have "snd (handleError e r phase sys) = s3"
      using p m s1 Inr by (cases b) (simp_all add: handleError_def Let_def)
    moreover have "s3 = s2\<lparr>trace := trace s2 @ map (\<lambda>m. MiddlewareCalled ''error'' (mname m))
        (called_until_throw
           (middleware_throws e \<lparr>mc_reactive = heap s2 r, mc_phase = ''error'', mc_timestamp = clock s2\<rparr>)
           (filter (\<lambda>m. m_error m \<noteq> None) (middleware s2)))\<rparr>"
      using handleError_middleware_trace[of e r "middleware s2" s2] m by simp
    ultimately show ?thesis using s2 ia Inr s1 by simp
  qed
qed

lemma called_until_throw_all: "\<not> list_ex throws xs \<Longrightarrow> called_until_throw throws xs = xs"
  by (induction xs) auto

lemma handleError_plugins_thrown:
  "fst (handleError_plugins e ctx ps sys) =
     (case first_thrown (plugin_thrown e ctx) ps of Some e' \<Rightarrow> Inl e' | None \<Rightarrow> Inr ())"
  by (induction ps arbitrary: sys)
     (auto simp: plugin_thrown_def split: option.splits sum.splits)

lemma handleError_middleware_thrown:
  "fst (handleError_middleware e r ms sys) =
     (case first_thrown
             (middleware_thrown e
                \<lparr>mc_reactive = heap sys r, mc_phase = ''error'', mc_timestamp = clock sys\<rparr>) ms of
        Some e' \<Rightarrow> Inl e'
      | None \<Rightarrow> Inr ())"
  by (induction ms arbitrary: sys)
     (auto simp: middleware_thrown_def logEvent_def split: option.splits sum.splits)

lemma handleError_thrown:
  "fst (handleError e r phase sys) = thrown_by_handleError e r phase sys"
proof -
  let ?s1 = "setErrorStatus e r sys"
  let ?ctx = "\<lparr>ec_phase = phase, ec_type = mtype (meta (heap sys r))\<rparr>"
  have s1: "trace ?s1 = trace sys" "plugins ?s1 = plugins sys" "middleware ?s1 = middleware sys"
    "clock ?s1 = clock sys" "mtype (meta (heap ?s1 r)) = mtype (meta (heap sys r))"
    by (simp_all add: setErrorStatus_def)
  obtain a s2 where p: "handleError_plugins e ?ctx (map snd (plugins sys)) ?s1 = (a, s2)"
    by force
  have s2: "s2 = ?s1\<lparr>trace := trace sys @ map (\<lambda>p. HookCalled ''handleError'' (pname p))
        (called_until_throw (plugin_throws e ?ctx) (filter (\<lambda>p. p_handleError p \<noteq> None) (map snd (plugins sys))))\<rparr>"
    using handleError_plugins_trace[of e ?ctx "map snd (plugins sys)" ?s1] p s1 by simp
  have a: "a = (case first_thrown (plugin_thrown e ?ctx) (map snd (plugins sys)) of
                  Some e' \<Rightarrow> Inl e' | None \<Rightarrow> Inr ())"
    using handleError_plugins_thrown[of e ?ctx "map snd (plugins sys)" ?s1] p by simp
  show ?thesis
  proof (cases "first_thrown (plugin_thrown e ?ctx) (map snd (plugins sys))")
    case (Some e')
    then show ?thesis using p a s1 by (simp add: handleError_def Let_def thrown_by_handleError_def)
  next
    case None
    obtain b s3 where m: "handleError_middleware e r (middleware s2) s2 = (b, s3)" by force
    have b: "b = (case first_thrown
             (middleware_thrown e
                \<lparr>mc_reactive = heap ?s1 r, mc_phase = ''error'', mc_timestamp = clock sys\<rparr>)
             (middleware sys) of
        Some e' \<Rightarrow> Inl e' | None \<Rightarrow> Inr ())"
      using handleError_middleware_thrown[of e r "middleware s2" s2] m s2 s1 by simp
    show ?thesis using p a None m b s1
      by (simp add: handleError_def Let_def thrown_by_handleError_def split: option.splits)
  qed
qed

lemma handleError_eq:
  "handleError e r phase sys =
     (thrown_by_handleError e r phase sys,
      (setErrorStatus e r sys)\<lparr>trace := trace sys @ handler_calls e r phase sys\<rparr>)"
  using handleError_thrown[of e r phase sys] handleError_state[of e r phase sys]
  unfolding handler_calls_def by (simp add: prod_eq_iff)

lemma first_thrown_None:
  "first_thrown thrown xs = None \<longleftrightarrow> (\<forall>x \<in> set xs. thrown x = None)"
  by (induction xs) (auto split: option.splits)

lemma plugin_thrown_throws: "plugin_thrown e ctx p = None \<longleftrightarrow> \<not> plugin_throws e ctx p"
  by (auto simp: plugin_thrown_def plugin_throws_def split: option.splits sum.splits)

lemma middleware_thrown_throws: "middleware_thrown e ctx m = None \<longleftrightarrow> \<not> middleware_throws e ctx m"
  by (auto simp: middleware_thrown_def middleware_throws_def split: option.splits sum.splits)

lemma handlers_return_all:
  assumes "handlers_return f r s"
  shows "thrown_by_handleError f r ''update'' s = f"
    and "handler_calls f r ''update'' s =
       map (\<lambda>p. HookCalled ''handleError'' (pname p))
         (filter (\<lambda>p. p_handleError p \<noteq> None) (map snd (plugins s))) @
       map (\<lambda>m. MiddlewareCalled ''error'' (mname m))
         (filter (\<lambda>m. m_error m \<noteq> None) (middleware s))"
proof -
  let ?pctx = "\<lparr>ec_phase = ''update'', ec_type = mtype (meta (heap s r))\<rparr>"
  let ?mctx = "\<lparr>mc_reactive = heap (setErrorStatus f r s) r, mc_phase = ''error'',
                 mc_timestamp = clock s\<rparr>"
  have q1: "\<not> list_ex (plugin_throws f ?pctx) (map snd (plugins s))"
    and q2: "\<not> list_ex (middleware_throws f ?mctx) (middleware s)"
    using assms unfolding handlers_return_def by simp_all
  have n1: "first_thrown (plugin_thrown f ?pctx) (map snd (plugins s)) = None"
    using q1 unfolding first_thrown_None list_ex_iff plugin_thrown_throws by blast
  have n2: "first_thrown (middleware_thrown f ?mctx) (middleware s) = None"
    using q2 unfolding first_thrown_None list_ex_iff middleware_thrown_throws by blast
  show "thrown_by_handleError f r ''update'' s = f"
    using n1 n2 by (simp add: thrown_by_handleError_def)
  have q3: "\<not> list_ex (plugin_throws f ?pctx)
        (filter (\<lambda>p. p_handleError p \<noteq> None) (map snd (plugins s)))"
    using q1 by (auto simp: list_ex_iff)
  have q4: "\<not> list_ex (middleware_throws f ?mctx)
        (filter (\<lambda>m. m_error m \<noteq> None) (middleware s))"
    using q2 by (auto simp: list_ex_iff)
  show "handler_calls f r ''update'' s =
       map (\<lambda>p. HookCalled ''handleError'' (pname p))
         (filter (\<lambda>p. p_handleError p \<noteq> None) (map snd (plugins s))) @
       map (\<lambda>m. MiddlewareCalled ''error'' (mname m))
         (filter (\<lambda>m. m_error m \<noteq> None) (middleware s))"
    using q1 called_until_throw_all[OF q3] called_until_throw_all[OF q4]
    by (simp add: handler_calls_def)
qed

lemma set_catch_Inl: "set_catch e r s = Some (res, s') \<Longrightarrow> \<exists>e'. res = Inl e'"
  by (auto simp: set_catch_def split: prod.splits)

lemma set_reactive_Inl:
  assumes run: "set_reactive n r v sys = Some (Inl e, sys')"
  shows "\<exists>e0 s. frame sys s \<and> handleError e0 r ''update'' s = (e, sys')"
proof -
  obtain m where n: "n = Suc m" using run by (cases n) simp_all
  let ?s0 = "logEvent (SetCalled r v) sys"
  obtain a s1 where rm: "runMiddleware ''before'' v r ?s0 = (a, s1)" by force
  have f1: "frame sys s1"
    using frame_trans[OF frame_logEvent_SetCalled frame_runMiddleware[OF rm]] .
  have catch: "\<exists>e0. handleError e0 r ''update'' s = (e, sys')"
    if "set_catch e0 r s = Some (Inl e, sys')" for e0 s
    using that by (auto simp: set_catch_def split: prod.splits)
  show ?thesis
  proof (cases a)
    case (Inl e1)
    then have "set_catch e1 r s1 = Some (Inl e, sys')" using run n rm by simp
    then show ?thesis using catch f1 by blast
  next
    case (Inr pv)
    obtain b s2 where up: "updateReactiveValue m r pv s1 = Some (b, s2)"
      using run n rm Inr by (auto split: option.splits)
    have f2: "frame sys s2" using frame_trans[OF f1 frame_updateReactiveValue[OF up]] .
    show ?thesis
    proof (cases b)
      case (Inl e1)
      then have "set_catch e1 r s2 = Some (Inl e, sys')" using run n rm Inr up by simp
      then show ?thesis using catch f2 by blast
    next
      case Inr2: (Inr u)
      obtain c s3 where ra: "runMiddleware ''after'' (rvalue (heap s2 r)) r s2 = (c, s3)" by force
      have f3: "frame sys s3" using frame_trans[OF f2 frame_runMiddleware[OF ra]] .
      show ?thesis
      proof (cases c)
        case (Inl e1)
        then have "set_catch e1 r s3 = Some (Inl e, sys')" using run n rm Inr up Inr2 ra by simp
        then show ?thesis using catch f3 by blast
      next
        case Inr3: (Inr w)
        then show ?thesis using run n rm Inr up Inr2 ra by simp
      qed
    qed
  qed
qed

text \<open>What no mutation does: it opens no batch window and calls no subscriber.\<close>

lemma batchQueue_stays_empty:
  assumes "batchQueue s = []" and "set_reactive n r v s = Some (res, s')"
  shows "batchQueue s' = []"
  using frame_fields(6)[OF frame_set_reactive[OF assms(2)] assms(1)] .

lemma set_reactive_calls_no_subscriber:
  assumes "set_reactive n r v s = Some (res, s')"
  shows "\<exists>evs. trace s' = trace s @ evs \<and> (\<forall>c x. CallbackInvoked c x \<notin> set evs)"
    and "subscriptions s' = subscriptions s"
  using frame_set_reactive[OF assms] unfolding frame_def by blast+

subsection \<open>The stages of a mutation\<close>

lemma frame_updateCount:
  "frame s s' \<Longrightarrow> updateCount (meta (heap s q)) \<le> updateCount (meta (heap s' q))"
  unfolding frame_def by blast

lemma frame_value:
  assumes "frame s s'" and "\<forall>x. Committed q x \<notin> set (drop (length (trace s)) (trace s'))"
  shows "rvalue (heap s' q) = rvalue (heap s q)"
proof -
  obtain evs where "trace s' = trace s @ evs"
      "\<forall>q. (\<forall>x. Committed q x \<notin> set evs) \<longrightarrow> rvalue (heap s' q) = rvalue (heap s q)"
    using assms(1) unfolding frame_def by blast
  then show ?thesis using assms(2) by simp
qed

lemma rejects_at_set_catch: "rejects_at (set_catch f r s) f r s"
  by (simp add: rejects_at_def set_catch_def handleError_eq setErrorStatus_def)

lemma runMiddleware_fields:
  assumes "runMiddleware phase v r sys = (a, sys')"
  shows "heap sys' = heap sys" and "history sys' = history sys"
    and "batchQueue sys' = batchQueue sys" and "options sys' = options sys"
proof -
  obtain evs where "sys' = sys\<lparr>trace := trace sys @ evs\<rparr>"
    using runMiddleware_loop_only_trace[of phase r "clock sys" "middleware sys" v sys] assms
    by (auto simp: runMiddleware_def)
  then show "heap sys' = heap sys" and "history sys' = history sys"
    and "batchQueue sys' = batchQueue sys" and "options sys' = options sys" by simp_all
qed

lemma runPluginHook_fields:
  assumes "runPluginHook hook sel v sys = (a, sys')"
  shows "heap sys' = heap sys" and "history sys' = history sys"
    and "batchQueue sys' = batchQueue sys" and "options sys' = options sys"
proof -
  obtain evs where "sys' = sys\<lparr>trace := trace sys @ evs\<rparr>"
    using runPluginHook_loop_only_trace[of hook sel "map snd (plugins sys)" v sys] assms
    by (auto simp: runPluginHook_def)
  then show "heap sys' = heap sys" and "history sys' = history sys"
    and "batchQueue sys' = batchQueue sys" and "options sys' = options sys" by simp_all
qed

lemma assigned_fields:
  "rvalue (heap (assigned r old pv s) r) = pv"
  "updateCount (meta (heap (assigned r old pv s) r)) = Suc (updateCount (meta (heap s r)))"
  "enableHistory (options s) \<Longrightarrow>
     historyOf (assigned r old pv s) (rid (heap s r)) =
       history_push (historySize (options s)) (historyOf s (rid (heap s r))) old"
  "\<not> enableHistory (options s) \<Longrightarrow> history (assigned r old pv s) = history s"
  by (simp_all add: assigned_def updateHistory_def commitValue_def logEvent_def Let_def
        historyOf_def history_push_def or_default_def)

lemma set_reactive_stages:
  assumes bq: "batchQueue sys = []"
    and B: "runMiddleware ''before'' v r (logEvent (SetCalled r v) sys) = (Inr pv, s1)"
  shows "set_reactive (Suc (Suc n)) r v sys =
     (case runPluginHook ''beforeUpdate'' (sel_beforeUpdate (rvalue (heap sys r))) pv s1 of
        (Inl e, s2) \<Rightarrow> set_catch e r s2
      | (Inr pv', s2) \<Rightarrow>
          (case notifyDependents n r (assigned r (rvalue (heap sys r)) pv' s2) of
             None \<Rightarrow> None
           | Some (Inl e, s4) \<Rightarrow> set_catch e r s4
           | Some (Inr _, s4) \<Rightarrow>
               (case runPluginHook ''afterUpdate'' sel_afterUpdate pv' s4 of
                  (Inl e, s5) \<Rightarrow> set_catch e r s5
                | (Inr _, s5) \<Rightarrow>
                    (case runMiddleware ''after'' (rvalue (heap s5 r)) r s5 of
                       (Inl e, s6) \<Rightarrow> set_catch e r s6
                     | (Inr _, s6) \<Rightarrow> Some (Inr (), s6)))))"
proof -
  have h1: "heap s1 = heap sys" "batchQueue s1 = []"
    using runMiddleware_fields[OF B] bq by (simp_all add: logEvent_def)
  show ?thesis
    using B h1
    by (simp add: assigned_def split: prod.splits sum.splits option.splits)
qed

lemma pair_fst: "fst p = a \<Longrightarrow> p = (a, snd p)"
  by (auto simp: prod_eq_iff)

subsection \<open>A cycle of dependents\<close>

lemma commit_fields:
  "has_set (heap (commitValue r v s) d) = has_set (heap s d)"
  "dependents (heap (commitValue r v s) d) = dependents (heap s d)"
  "rid (heap (commitValue r v s) d) = rid (heap s d)"
  "reactives (commitValue r v s) = reactives s"
  "plugins (commitValue r v s) = plugins s"
  "middleware (commitValue r v s) = middleware s"
  "batchQueue (commitValue r v s) = batchQueue s"
  "options (commitValue r v s) = options s"
  by (simp_all add: commitValue_def logEvent_def)

lemma updateHistory_fields:
  "heap (updateHistory i old s) = heap s"
  "reactives (updateHistory i old s) = reactives s"
  "plugins (updateHistory i old s) = plugins s"
  "middleware (updateHistory i old s) = middleware s"
  "batchQueue (updateHistory i old s) = batchQueue s"
  "options (updateHistory i old s) = options s"
  by (simp_all add: updateHistory_def Let_def)

lemma logEvent_fields:
  "heap (logEvent ev s) = heap s"
  "reactives (logEvent ev s) = reactives s"
  "plugins (logEvent ev s) = plugins s"
  "middleware (logEvent ev s) = middleware s"
  "batchQueue (logEvent ev s) = batchQueue s"
  "options (logEvent ev s) = options s"
  "history (logEvent ev s) = history s"
  by (simp_all add: logEvent_def)

lemma cyclic_ex_cycle: "cyclic ex_cycle"
proof -
  have "plugins ex_cycle = [] \<and> middleware ex_cycle = [] \<and> batchQueue ex_cycle = [] \<and>
     list_all (\<lambda>i. case reactives ex_cycle i of None \<Rightarrow> False
        | Some d \<Rightarrow> has_set (heap ex_cycle d) \<and>
            (case dependents (heap ex_cycle d) of [j] \<Rightarrow> j \<in> set [''A'', ''B'', ''C''] | _ \<Rightarrow> False))
       [''A'', ''B'', ''C'']"
    by code_simp
  then show ?thesis
    unfolding cyclic_def cycle_ids_def
    by (auto split: option.splits list.splits)
qed

lemma cyclic_logEvent: "cyclic sys \<Longrightarrow> cyclic (logEvent ev sys)"
  by (simp add: cyclic_def logEvent_fields)

lemma cyclic_commit:
  "cyclic sys \<Longrightarrow> cyclic (if enableHistory (options sys)
              then updateHistory i old (commitValue r v sys)
              else commitValue r v sys)"
  by (simp add: cyclic_def commit_fields updateHistory_fields)

lemma cyclic_node:
  assumes "cyclic s" and "i \<in> cycle_ids" and "reactives s i = Some d"
  shows "has_set (heap s d)" and "\<exists>j \<in> cycle_ids. dependents (heap s d) = [j]"
    and "plugins s = []" and "middleware s = []" and "batchQueue s = []"
  using assms unfolding cyclic_def by fastforce+

lemma cyclic_registered:
  assumes "cyclic s" and "i \<in> cycle_ids"
  shows "\<exists>d. reactives s i = Some d"
  using assms unfolding cyclic_def by fastforce

lemma diverging_Suc:
  assumes IH: "diverging n"
  shows "diverging (Suc n)"
  unfolding diverging_def
proof (intro allI impI)
  fix s i d v
  assume a: "cyclic s \<and> i \<in> cycle_ids \<and> reactives s i = Some d"
  then have c: "cyclic s" and i: "i \<in> cycle_ids" and d: "reactives s i = Some d" by simp_all
  note n = cyclic_node[OF c i d]
  have st: "set_reactive (Suc n) d v s = None"
  proof -
    let ?s1 = "logEvent (SetCalled d v) s"
    have "runMiddleware ''before'' v d ?s1 = (Inr v, ?s1)"
      using n(4) by (simp add: runMiddleware_def logEvent_fields)
    moreover have "updateReactiveValue n d v ?s1 = None"
      using IH cyclic_logEvent[OF c] i d unfolding diverging_def by (simp add: logEvent_fields)
    ultimately show ?thesis by simp
  qed
  have up: "updateReactiveValue (Suc n) d v s = None"
  proof -
    let ?s3 = "if enableHistory (options s)
               then updateHistory (rid (heap s d)) (rvalue (heap s d)) (commitValue d v s)
               else commitValue d v s"
    have h: "runPluginHook ''beforeUpdate'' (sel_beforeUpdate (rvalue (heap s d))) v s = (Inr v, s)"
      using n(3) by (simp add: runPluginHook_def)
    have "reactives ?s3 i = Some d" using d by (simp add: commit_fields updateHistory_fields)
    then have "notifyDependents n d ?s3 = None"
      using IH cyclic_commit[OF c, of "rid (heap s d)" "rvalue (heap s d)" d v] i
      unfolding diverging_def by blast
    then show ?thesis using h n(5) by simp
  qed
  have nd: "notifyDependents (Suc n) d s = None"
  proof -
    obtain j where j: "j \<in> cycle_ids" "dependents (heap s d) = [j]" using n(2) by blast
    obtain dj where "reactives s j = Some dj" using cyclic_registered[OF c j(1)] by blast
    then have "notifyDependents_loop n {} [j] s = None"
      using IH c j(1) unfolding diverging_def by blast
    then show ?thesis using j(2) by simp
  qed
  have lp: "notifyDependents_loop (Suc n) {} [i] s = None"
  proof -
    have "set_reactive n d (rvalue (heap s d)) s = None"
      using IH c i d unfolding diverging_def by blast
    then show ?thesis using d n(1) by (simp add: getReactive_def)
  qed
  show "set_reactive (Suc n) d v s = None \<and> updateReactiveValue (Suc n) d v s = None \<and>
        notifyDependents (Suc n) d s = None \<and> notifyDependents_loop (Suc n) {} [i] s = None"
    using st up nd lp by simp
qed

lemma cyclic_diverges: "diverging n"
proof (induction n)
  case 0
  show ?case by (simp add: diverging_def)
next
  case (Suc n)
  then show ?case by (rule diverging_Suc)
qed

lemma ex_cycle_diverges: "set_reactive n 0 v ex_cycle = None"
proof -
  have "reactives ex_cycle ''A'' = Some 0" by code_simp
  moreover have "''A'' \<in> cycle_ids" by (simp add: cycle_ids_def)
  ultimately show ?thesis
    using cyclic_diverges[of n] cyclic_ex_cycle unfolding diverging_def by blast
qed

lemma ex_chain_twice:
  "map_option (\<lambda>(res, s). (res, length (filter (is_set_call 1) (trace s)),
                               length (filter (is_set_call 2) (trace s))))
       (set_reactive 13 0 (JNum 1) ex_chain) = Some (Inr (), 1, 2)"
  by code_simp

lemma ex_cycle_graph:
  "map (\<lambda>i. map_option (\<lambda>r. (r, has_set (heap ex_cycle r), dependents (heap ex_cycle r)))
              (reactives ex_cycle i)) [''A'', ''B'', ''C'']
     = [Some (0, True, [''B'']), Some (1, True, [''C'']), Some (2, True, [''A''])]"
  by code_simp

subsection \<open>The history log\<close>

lemma history_push_drop:
  assumes "length h \<le> N"
  shows "history_push (int N) h v = drop (Suc (length h) - N) (h @ [v])"
proof (cases "length h < N")
  case True
  then show ?thesis by (simp add: history_push_def)
next
  case False
  then have "length h = N" using assms by simp
  then have "Suc (length h) - N = Suc 0" and "int (length (h @ [v])) > int N" by simp_all
  then have "history_push (int N) h v = tl (h @ [v])"
    and "drop (Suc (length h) - N) (h @ [v]) = tl (h @ [v])"
    by (simp_all only: history_push_def drop_Suc drop_0 if_True)
  then show ?thesis by simp
qed

lemma history_push_length:
  assumes "length h \<le> N" and "0 < N"
  shows "length (history_push (int N) h v) \<le> N"
  using assms by (auto simp: history_push_def)

lemma foldl_history_push:
  assumes "length h \<le> N" and "0 < N"
  shows "foldl (history_push (int N)) h vs = drop (length (h @ vs) - N) (h @ vs)"
  using assms
proof (induction vs arbitrary: h)
  case Nil
  then show ?case by simp
next
  case (Cons v vs)
  let ?h = "history_push (int N) h v"
  have l: "length ?h \<le> N" using history_push_length[OF Cons.prems] .
  have e: "?h = drop (Suc (length h) - N) (h @ [v])" using history_push_drop[OF Cons.prems(1)] .
  have "foldl (history_push (int N)) ?h vs = drop (length (?h @ vs) - N) (?h @ vs)"
    using Cons.IH[OF l Cons.prems(2)] .
  also have "\<dots> = drop (length (h @ v # vs) - N) (h @ v # vs)"
  proof (cases "length h < N")
    case True
    then have "?h = h @ [v]" using e by simp
    then show ?thesis by simp
  next
    case False
    then have hN: "length h = N" using Cons.prems by simp
    have ne: "h \<noteq> []" using hN Cons.prems(2) by auto
    have "int (length (h @ [v])) > int N" using hN by simp
    then have "?h = tl (h @ [v])" by (simp only: history_push_def if_True)
    then have h2: "?h = tl h @ [v]" using ne by simp
    have lh: "length ?h = N" using h2 hN Cons.prems(2) by (cases h) simp_all
    have a1: "length (?h @ vs) - N = length vs" using lh by simp
    have a2: "?h @ vs = tl h @ v # vs" using h2 by simp
    have a3: "drop (length vs) (tl h @ v # vs) = drop (Suc (length vs)) (h @ v # vs)"
      using ne by (cases h) simp_all
    have a4: "length (h @ v # vs) - N = Suc (length vs)" using hN by simp
    have "drop (length (?h @ vs) - N) (?h @ vs) = drop (length vs) (tl h @ v # vs)"
      by (subst a1) (simp only: a2)
    also have "\<dots> = drop (length (h @ v # vs) - N) (h @ v # vs)"
      by (subst a4) (simp only: a3)
    finally show ?thesis .
  qed
  finally show ?case by simp
qed

lemma runMiddleware_only_trace:
  assumes "runMiddleware phase v r sys = (a, sys')"
  shows "\<exists>evs. sys' = sys\<lparr>trace := trace sys @ evs\<rparr> \<and> list_all user_call evs"
  using runMiddleware_loop_only_trace[of phase r "clock sys" "middleware sys" v sys] assms
  by (auto simp: runMiddleware_def)

lemma runPluginHook_only_trace:
  assumes "runPluginHook hook sel v sys = (a, sys')"
  shows "\<exists>evs. sys' = sys\<lparr>trace := trace sys @ evs\<rparr> \<and> list_all user_call evs"
  using runPluginHook_loop_only_trace[of hook sel "map snd (plugins sys)" v sys] assms
  by (auto simp: runPluginHook_def)

lemma updateHistory_history:
  "history (updateHistory i v s) i = Some (history_push (historySize (options s)) (historyOf s i) v)"
  by (simp add: updateHistory_def history_push_def historyOf_def Let_def)

lemma updateReactiveValue_history:
  assumes en: "enableHistory (options sys)" and bq: "batchQueue sys = []"
    and cl: "closed_under_dependents S sys" and dS: "set (dependents (heap sys r)) \<subseteq> S"
    and rS: "rid (heap sys r) \<notin> S"
    and run: "updateReactiveValue n r v sys = Some (Inr u, sys')"
  shows "history sys' (rid (heap sys r)) =
           Some (history_push (historySize (options sys)) (historyOf sys (rid (heap sys r)))
                   (rvalue (heap sys r)))"
proof -
  obtain m where n: "n = Suc m" using run by (cases n) simp_all
  obtain a s1 where hk: "runPluginHook ''beforeUpdate'' (sel_beforeUpdate (rvalue (heap sys r))) v sys = (a, s1)"
    by force
  obtain evs1 where s1: "s1 = sys\<lparr>trace := trace sys @ evs1\<rparr>" "list_all user_call evs1"
    using runPluginHook_only_trace[OF hk] by blast
  obtain pv where a: "a = Inr pv" using run n bq hk by (cases a) auto
  let ?i = "rid (heap sys r)"
  let ?s3 = "updateHistory (rid (heap s1 r)) (rvalue (heap sys r)) (commitValue r pv s1)"
  have s3: "(if enableHistory (options s1)
               then updateHistory (rid (heap s1 r)) (rvalue (heap sys r)) (commitValue r pv s1)
               else commitValue r pv s1) = ?s3"
    using en s1 by simp
  obtain b s4 where nd: "notifyDependents m r ?s3 = Some (b, s4)"
    using run n bq hk a s3 by (auto split: option.splits)
  have b: "b = Inr ()" using run n bq hk a s3 nd by (cases b) auto
  have h3: "history ?s3 ?i = Some (history_push (historySize (options sys)) (historyOf sys ?i)
                   (rvalue (heap sys r)))"
    using s1 updateHistory_history[of ?i "rvalue (heap sys r)" "commitValue r pv s1"]
    by (simp add: historyOf_def commitValue_def logEvent_def)
  have f13: "frame s1 ?s3" using frame_commit[of s1 r "rvalue (heap sys r)" pv] s3 by simp
  have f3: "frame sys ?s3"
    using frame_trans[OF frame_only_trace[OF s1(2), of sys] f13[unfolded s1(1)]] s1(1) by simp
  have cl3: "closed_under_dependents S ?s3" using closed_frame[OF cl f3] .
  have d3: "set (dependents (heap ?s3 r)) \<subseteq> S" using dS frame_fields(2)[OF f3] by simp
  have "inside S ?s3 s4" using inside_notifyDependents[OF cl3 d3 nd] .
  then have h4: "history s4 ?i = history ?s3 ?i" using rS unfolding inside_def by blast
  obtain c s5 where ha: "runPluginHook ''afterUpdate'' sel_afterUpdate pv s4 = (c, s5)"
    by force
  obtain evs5 where s5: "s5 = s4\<lparr>trace := trace s4 @ evs5\<rparr>"
    using runPluginHook_only_trace[OF ha] by blast
  have "sys' = s5" using run n bq hk a s3 nd b ha by (cases c) auto
  then show ?thesis using s5 h4 h3 by simp
qed

lemma set_reactive_history:
  assumes en: "enableHistory (options sys)" and bq: "batchQueue sys = []"
    and cl: "closed_under_dependents S sys" and dS: "set (dependents (heap sys r)) \<subseteq> S"
    and rS: "rid (heap sys r) \<notin> S"
    and run: "set_reactive n r v sys = Some (Inr u, sys')"
  shows "history sys' (rid (heap sys r)) =
           Some (history_push (historySize (options sys)) (historyOf sys (rid (heap sys r)))
                   (rvalue (heap sys r)))"
proof -
  obtain m where n: "n = Suc m" using run by (cases n) simp_all
  let ?s0 = "logEvent (SetCalled r v) sys"
  obtain a s1 where rm: "runMiddleware ''before'' v r ?s0 = (a, s1)" by force
  obtain evs1 where s1: "s1 = ?s0\<lparr>trace := trace ?s0 @ evs1\<rparr>" "list_all user_call evs1"
    using runMiddleware_only_trace[OF rm] by blast
  have s1': "s1 = sys\<lparr>trace := trace sys @ SetCalled r v # evs1\<rparr>"
    using s1(1) by (simp add: logEvent_def)
  have f1: "frame sys s1"
    using frame_trans[OF frame_logEvent_SetCalled frame_runMiddleware[OF rm]] .
  obtain pv where a: "a = Inr pv"
    using run n rm set_catch_Inl[of _ r s1 "Inr u" sys'] by (cases a) auto
  obtain b s2 where up: "updateReactiveValue m r pv s1 = Some (b, s2)"
    using run n rm a by (auto split: option.splits)
  have b: "b = Inr ()"
    using run n rm a up set_catch_Inl[of _ r s2 "Inr u" sys'] by (cases b) auto
  have "history s2 (rid (heap s1 r)) =
           Some (history_push (historySize (options s1)) (historyOf s1 (rid (heap s1 r)))
                   (rvalue (heap s1 r)))"
  proof (rule updateReactiveValue_history[where S = S and n = m and v = pv and u = "()"])
    show "enableHistory (options s1)" using en s1' by simp
    show "batchQueue s1 = []" using bq s1' by simp
    show "closed_under_dependents S s1" using closed_frame[OF cl f1] .
    show "set (dependents (heap s1 r)) \<subseteq> S" using dS s1' by simp
    show "rid (heap s1 r) \<notin> S" using rS s1' by simp
    show "updateReactiveValue m r pv s1 = Some (Inr (), s2)" using up b by simp
  qed
  then have h2: "history s2 (rid (heap sys r)) =
           Some (history_push (historySize (options sys)) (historyOf sys (rid (heap sys r)))
                   (rvalue (heap sys r)))"
    using s1' by (simp add: historyOf_def)
  obtain c s3 where ra: "runMiddleware ''after'' (rvalue (heap s2 r)) r s2 = (c, s3)" by force
  obtain evs3 where s3: "s3 = s2\<lparr>trace := trace s2 @ evs3\<rparr>"
    using runMiddleware_only_trace[OF ra] by blast
  have "sys' = s3"
    using run n rm a up b ra set_catch_Inl[of _ r s3 "Inr u" sys'] by (cases c) auto
  then show ?thesis using s3 h2 by simp
qed

lemma commits_history:
  assumes en: "enableHistory (options sys)" and hs: "historySize (options sys) = int N"
    and bq: "batchQueue sys = []"
    and cl: "closed_under_dependents S sys" and dS: "set (dependents (heap sys r)) \<subseteq> S"
    and rS: "rid (heap sys r) \<notin> S"
    and run: "commits n r vs sys = Some (priors, sys')"
  shows "historyOf sys' (rid (heap sys r)) =
           foldl (history_push (int N)) (historyOf sys (rid (heap sys r))) priors \<and>
         length priors = length vs"
  using assms
proof (induction vs arbitrary: sys priors)
  case Nil
  then show ?case by simp
next
  case (Cons v vs)
  obtain res s1 where st: "set_reactive n r v sys = Some (res, s1)"
    using Cons.prems(7) by (auto split: option.splits)
  have res: "res = Inr ()" using Cons.prems(7) st by (cases res) auto
  obtain ps where cm: "commits n r vs s1 = Some (ps, sys')"
    and pr: "priors = rvalue (heap sys r) # ps"
    using Cons.prems(7) st res by (auto split: option.splits)
  have f: "frame sys s1" using frame_set_reactive[OF st] .
  note ff = frame_fields[OF f]
  let ?i = "rid (heap sys r)"
  have h1: "history s1 ?i = Some (history_push (int N) (historyOf sys ?i) (rvalue (heap sys r)))"
    using set_reactive_history[OF Cons.prems(1,3,4,5,6), of n v "()" s1] st res Cons.prems(2)
    by simp
  have "historyOf sys' (rid (heap s1 r)) =
           foldl (history_push (int N)) (historyOf s1 (rid (heap s1 r))) ps \<and>
         length ps = length vs"
  proof (rule Cons.IH)
    show "enableHistory (options s1)" using Cons.prems(1) ff(5) by simp
    show "historySize (options s1) = int N" using Cons.prems(2) ff(5) by simp
    show "batchQueue s1 = []" using Cons.prems(3) ff(6) by simp
    show "closed_under_dependents S s1" using closed_frame[OF Cons.prems(4) f] .
    show "set (dependents (heap s1 r)) \<subseteq> S" using Cons.prems(5) ff(2) by simp
    show "rid (heap s1 r) \<notin> S" using Cons.prems(6) ff(1) by simp
    show "commits n r vs s1 = Some (ps, sys')" using cm .
  qed
  then show ?case using h1 pr ff(1)[of r] by (simp add: historyOf_def or_default_def)
qed

subsection \<open>A mutation that returns is not on a cycle\<close>

text \<open>
  A propagation pass that returns has visited a set of ids closed under dependents.
  If the id of a registered reactive R were in the set visited by the pass of its own
  commit, that pass would have called the mutator of R with less fuel, and that call
  would have returned: by induction on the fuel, a commit of R that returns has a
  closed set of ids that holds the dependents of R and not the id of R.
\<close>

lemma closed_frame_back:
  assumes "closed_under_dependents S s'" and "frame s s'"
  shows "closed_under_dependents S s"
  using assms unfolding closed_under_dependents_def frame_def by simp

lemma registry_wf_frame:
  assumes "registry_wf s" and "frame s s'"
  shows "registry_wf s'"
  using assms unfolding registry_wf_def frame_def by simp

lemma visited_set_mono:
  assumes "visited_set n vis q s V" and "n \<le> n'"
  shows "visited_set n' vis q s V"
  using assms unfolding visited_set_def by (meson le_trans less_le_trans)

lemma visited_setD1: "visited_set n vis q s V \<Longrightarrow> vis \<union> set q \<subseteq> V"
  by (simp add: visited_set_def)

lemma visited_setD2:
  "visited_set n vis q s V \<Longrightarrow> j \<in> V \<Longrightarrow> j \<notin> vis \<Longrightarrow> reactives s j = Some e
   \<Longrightarrow> set (dependents (heap s e)) \<subseteq> V"
  unfolding visited_set_def by blast

lemma visited_setD3:
  "visited_set n vis q s V \<Longrightarrow> j \<in> V \<Longrightarrow> j \<notin> vis \<Longrightarrow> reactives s j = Some e
   \<Longrightarrow> has_set (heap s e)
   \<Longrightarrow> \<exists>m s1 s2 v u. m < n \<and> frame s s1 \<and> set_reactive m e v s1 = Some (Inr u, s2)"
  unfolding visited_set_def by blast

lemma loop_visited_set:
  "notifyDependents_loop n vis q s = Some (Inr u, s') \<Longrightarrow> \<exists>V. visited_set n vis q s V"
proof (induction n arbitrary: vis q s)
  case 0
  then show ?case by simp
next
  case (Suc n)
  show ?case
  proof (cases q)
    case Nil
    have "visited_set (Suc n) vis [] s vis" by (auto simp: visited_set_def)
    then show ?thesis using Nil by blast
  next
    case (Cons i rest)
    show ?thesis
    proof (cases "i \<in> vis")
      case True
      then have "notifyDependents_loop n vis rest s = Some (Inr u, s')"
        using Suc.prems Cons by simp
      then obtain V where "visited_set n vis rest s V" using Suc.IH by blast
      then have V: "visited_set (Suc n) vis rest s V" by (rule visited_set_mono) simp
      have "vis \<union> set (i # rest) \<subseteq> V" using visited_setD1[OF V] True by auto
      then have "visited_set (Suc n) vis (i # rest) s V"
        using visited_setD2[OF V] visited_setD3[OF V] unfolding visited_set_def by blast
      then show ?thesis using Cons by blast
    next
      case False
      show ?thesis
      proof (cases "reactives s i")
        case None
        then have "notifyDependents_loop n (insert i vis) rest s = Some (Inr u, s')"
          using Suc.prems Cons False by (simp add: getReactive_def)
        then obtain V where "visited_set n (insert i vis) rest s V" using Suc.IH by blast
        then have V: "visited_set (Suc n) (insert i vis) rest s V" by (rule visited_set_mono) simp
        have "visited_set (Suc n) vis (i # rest) s V"
          unfolding visited_set_def
        proof (intro conjI allI impI)
          show "vis \<union> set (i # rest) \<subseteq> V" using visited_setD1[OF V] by auto
        next
          fix j e assume a: "j \<in> V \<and> j \<notin> vis \<and> reactives s j = Some e"
          then have "j \<notin> insert i vis" using None by auto
          then show "set (dependents (heap s e)) \<subseteq> V" using visited_setD2[OF V, of j e] a by blast
        next
          fix j e assume a: "j \<in> V \<and> j \<notin> vis \<and> reactives s j = Some e"
            and hs: "has_set (heap s e)"
          then have "j \<notin> insert i vis" using None by auto
          then show "\<exists>m s1 s2 v u. m < Suc n \<and> frame s s1 \<and> set_reactive m e v s1 = Some (Inr u, s2)"
            using visited_setD3[OF V, of j e] a hs by blast
        qed
        then show ?thesis using Cons by blast
      next
        case (Some d)
        show ?thesis
        proof (cases "has_set (heap s d)")
          case nos: False
          then have "notifyDependents_loop n (insert i vis) (rest @ dependents (heap s d)) s
              = Some (Inr u, s')"
            using Suc.prems Cons False Some by (simp add: getReactive_def)
          then obtain V where "visited_set n (insert i vis) (rest @ dependents (heap s d)) s V"
            using Suc.IH by blast
          then have V: "visited_set (Suc n) (insert i vis) (rest @ dependents (heap s d)) s V"
            by (rule visited_set_mono) simp
          have "visited_set (Suc n) vis (i # rest) s V"
            unfolding visited_set_def
          proof (intro conjI allI impI)
            show "vis \<union> set (i # rest) \<subseteq> V" using visited_setD1[OF V] by auto
          next
            fix j e assume a: "j \<in> V \<and> j \<notin> vis \<and> reactives s j = Some e"
            show "set (dependents (heap s e)) \<subseteq> V"
            proof (cases "j = i")
              case True
              then have "e = d" using a Some by simp
              then show ?thesis using visited_setD1[OF V] by auto
            next
              case False
              then have "j \<notin> insert i vis" using a by auto
              then show ?thesis using visited_setD2[OF V, of j e] a by blast
            qed
          next
            fix j e assume a: "j \<in> V \<and> j \<notin> vis \<and> reactives s j = Some e"
              and hs: "has_set (heap s e)"
            then have "j \<notin> insert i vis" using Some nos by auto
            then show "\<exists>m s1 s2 v u. m < Suc n \<and> frame s s1 \<and> set_reactive m e v s1 = Some (Inr u, s2)"
              using visited_setD3[OF V, of j e] a hs by blast
          qed
          then show ?thesis using Cons by blast
        next
          case True
          obtain b s1 where st: "set_reactive n d (rvalue (heap s d)) s = Some (b, s1)"
            using Suc.prems Cons False Some True by (auto simp: getReactive_def split: option.splits)
          have b: "b = Inr ()"
            using Suc.prems Cons False Some True st by (cases b) (auto simp: getReactive_def)
          have lp: "notifyDependents_loop n (insert i vis) (rest @ dependents (heap s1 d)) s1
              = Some (Inr u, s')"
            using Suc.prems Cons False Some True st b by (simp add: getReactive_def)
          obtain V where V: "visited_set n (insert i vis) (rest @ dependents (heap s1 d)) s1 V"
            using Suc.IH[OF lp] by blast
          have f: "frame s s1" using frame_set_reactive[OF st] .
          note ff = frame_fields[OF f]
          have "visited_set (Suc n) vis (i # rest) s V"
            unfolding visited_set_def
          proof (intro conjI allI impI)
            show "vis \<union> set (i # rest) \<subseteq> V" using visited_setD1[OF V] by auto
          next
            fix j e assume a: "j \<in> V \<and> j \<notin> vis \<and> reactives s j = Some e"
            show "set (dependents (heap s e)) \<subseteq> V"
            proof (cases "j = i")
              case True
              then have "e = d" using a Some by simp
              then show ?thesis using visited_setD1[OF V] ff(2) by auto
            next
              case False
              then have "j \<notin> insert i vis" "reactives s1 j = Some e" using a ff(4) by auto
              then show ?thesis using visited_setD2[OF V, of j e] a ff(2) by simp
            qed
          next
            fix j e assume a: "j \<in> V \<and> j \<notin> vis \<and> reactives s j = Some e"
              and hs: "has_set (heap s e)"
            show "\<exists>m s1 s2 v u. m < Suc n \<and> frame s s1 \<and> set_reactive m e v s1 = Some (Inr u, s2)"
            proof (cases "j = i")
              case True
              then have "e = d" using a Some by simp
              then show ?thesis using st b frame_refl[of s] by blast
            next
              case False
              then have "j \<notin> insert i vis" "reactives s1 j = Some e" "has_set (heap s1 e)"
                using a hs ff(3,4) by auto
              then have "\<exists>m s2 s3 v u. m < n \<and> frame s1 s2 \<and> set_reactive m e v s2 = Some (Inr u, s3)"
                using visited_setD3[OF V, of j e] a by blast
              then obtain m s2 s3 v u' where
                "m < n" "frame s1 s2" "set_reactive m e v s2 = Some (Inr u', s3)" by blast
              then show ?thesis using frame_trans[OF f] less_SucI by blast
            qed
          qed
          then show ?thesis using Cons by blast
        qed
      qed
    qed
  qed
qed

lemma set_reactive_reaches_loop:
  assumes run: "set_reactive n r v s = Some (Inr u, s')" and bq: "batchQueue s = []"
  shows "\<exists>k s3 s4. k < n \<and> frame s s3 \<and>
           notifyDependents_loop k {} (dependents (heap s r)) s3 = Some (Inr (), s4)"
proof -
  obtain m where n: "n = Suc m" using run by (cases n) simp_all
  let ?s0 = "logEvent (SetCalled r v) s"
  obtain a s1 where rm: "runMiddleware ''before'' v r ?s0 = (a, s1)" by force
  have f1: "frame s s1"
    using frame_trans[OF frame_logEvent_SetCalled frame_runMiddleware[OF rm]] .
  obtain pv where a: "a = Inr pv"
    using run n rm set_catch_Inl[of _ r s1 "Inr u" s'] by (cases a) auto
  obtain b s2 where up: "updateReactiveValue m r pv s1 = Some (b, s2)"
    using run n rm a by (auto split: option.splits)
  have b: "b = Inr ()"
    using run n rm a up set_catch_Inl[of _ r s2 "Inr u" s'] by (cases b) auto
  obtain k where m: "m = Suc k" using up by (cases m) simp_all
  have bq1: "batchQueue s1 = []" using frame_fields(6)[OF f1 bq] .
  obtain c s1' where hk: "runPluginHook ''beforeUpdate'' (sel_beforeUpdate (rvalue (heap s1 r))) pv s1 = (c, s1')"
    by force
  obtain pv' where c: "c = Inr pv'" using up b m bq1 hk by (cases c) auto
  let ?s3 = "if enableHistory (options s1')
               then updateHistory (rid (heap s1' r)) (rvalue (heap s1 r)) (commitValue r pv' s1')
               else commitValue r pv' s1'"
  have f3: "frame s ?s3"
    using frame_trans[OF f1 frame_trans[OF frame_runPluginHook[OF hk] frame_commit]] .
  obtain d s4 where nd: "notifyDependents k r ?s3 = Some (d, s4)"
    using up b m bq1 hk c by (auto split: option.splits)
  have d: "d = Inr ()" using up b m bq1 hk c nd by (cases d) auto
  obtain j where k: "k = Suc j" using nd by (cases k) simp_all
  have "notifyDependents_loop j {} (dependents (heap ?s3 r)) ?s3 = Some (Inr (), s4)"
    using nd d k by simp
  moreover have "dependents (heap ?s3 r) = dependents (heap s r)"
    using frame_fields(2)[OF f3] .
  moreover have "j < n" using n m k by simp
  ultimately show ?thesis using f3 by metis
qed

lemma exists_closed_set:
  "\<forall>s r v u s'. registry_wf s \<and> batchQueue s = [] \<and> reactives s (rid (heap s r)) = Some r \<and>
      has_set (heap s r) \<and> set_reactive n r v s = Some (Inr u, s')
      \<longrightarrow> (\<exists>S. closed_under_dependents S s \<and> set (dependents (heap s r)) \<subseteq> S \<and>
               rid (heap s r) \<notin> S)"
proof (induction n rule: less_induct)
  case (less n)
  show ?case
  proof (intro allI impI)
    fix s r v u s'
    assume a: "registry_wf s \<and> batchQueue s = [] \<and> reactives s (rid (heap s r)) = Some r \<and>
      has_set (heap s r) \<and> set_reactive n r v s = Some (Inr u, s')"
    then have wf: "registry_wf s" and bq: "batchQueue s = []"
      and reg: "reactives s (rid (heap s r)) = Some r" and hs: "has_set (heap s r)"
      and run: "set_reactive n r v s = Some (Inr u, s')" by simp_all
    obtain k s3 s4 where k: "k < n" and f3: "frame s s3"
      and lp: "notifyDependents_loop k {} (dependents (heap s r)) s3 = Some (Inr (), s4)"
      using set_reactive_reaches_loop[OF run bq] by blast
    obtain V where V: "visited_set k {} (dependents (heap s r)) s3 V"
      using loop_visited_set[OF lp] by blast
    note ff3 = frame_fields[OF f3]
    have wf3: "registry_wf s3" using registry_wf_frame[OF wf f3] .
    have "closed_under_dependents V s3"
      unfolding closed_under_dependents_def
    proof (intro ballI allI impI conjI)
      fix i d assume i: "i \<in> V" and d: "reactives s3 i = Some d"
      show "rid (heap s3 d) \<in> V" using wf3 i d unfolding registry_wf_def by auto
      show "set (dependents (heap s3 d)) \<subseteq> V" using visited_setD2[OF V i _ d] by simp
    qed
    then have clV: "closed_under_dependents V s" using closed_frame_back[OF _ f3] by blast
    have dV: "set (dependents (heap s r)) \<subseteq> V" using visited_setD1[OF V] by simp
    show "\<exists>S. closed_under_dependents S s \<and> set (dependents (heap s r)) \<subseteq> S \<and>
               rid (heap s r) \<notin> S"
    proof (cases "rid (heap s r) \<in> V")
      case False
      then show ?thesis using clV dV by blast
    next
      case True
      have reg3: "reactives s3 (rid (heap s r)) = Some r" using reg ff3(4) by simp
      have hs3: "has_set (heap s3 r)" using hs ff3(3) by simp
      obtain m s1 s2 v' u' where m: "m < k" and f31: "frame s3 s1"
        and st: "set_reactive m r v' s1 = Some (Inr u', s2)"
        using visited_setD3[OF V True _ reg3 hs3] by auto
      have f1: "frame s s1" using frame_trans[OF f3 f31] .
      note ff1 = frame_fields[OF f1]
      have "registry_wf s1 \<and> batchQueue s1 = [] \<and> reactives s1 (rid (heap s1 r)) = Some r \<and>
          has_set (heap s1 r) \<and> set_reactive m r v' s1 = Some (Inr u', s2)"
        using registry_wf_frame[OF wf f1] ff1(6)[OF bq] reg ff1(1,3,4) hs st by simp
      moreover have "m < n" using m k by simp
      ultimately obtain S where S: "closed_under_dependents S s1"
          "set (dependents (heap s1 r)) \<subseteq> S" "rid (heap s1 r) \<notin> S"
        using less.IH by blast
      have "closed_under_dependents S s" using closed_frame_back[OF S(1) f1] .
      then show ?thesis using S(2,3) ff1(1,2) by auto
    qed
  qed
qed

subsection \<open>Well-formed states\<close>

lemma wellformed_ComponentSystem: "wellformed (ComponentSystem config)"
  by (simp add: wellformed_def registry_wf_def ComponentSystem_def)

lemma wellformed_only_trace: "wellformed sys \<Longrightarrow> wellformed (sys\<lparr>trace := t\<rparr>)"
  by (simp add: wellformed_def registry_wf_def)

lemma createReactive_more:
  assumes "createReactive uuid config sys = (r, sys')"
  shows "next_ref sys' = Suc (next_ref sys)" and "batchQueue sys' = batchQueue sys"
  using assms by (auto simp: createReactive_def registerReactive_def)

lemma wellformed_createReactive:
  assumes w: "wellformed sys" and c: "createReactive uuid config sys = (r, sys')"
  shows "wellformed sys'"
proof -
  note cf = createReactive_facts[OF c] createReactive_more[OF c]
  have old: "\<And>i d. reactives sys i = Some d \<Longrightarrow> d < r \<and> rid (heap sys d) = i"
    using w cf(1) unfolding wellformed_def registry_wf_def by blast
  have "rid (heap sys' d) = i \<and> d < next_ref sys'" if "reactives sys' i = Some d" for i d
  proof (cases "i = rid (heap sys' r)")
    case True
    then have "d = r" using that cf(2) by simp
    then show ?thesis using True cf(1,12) by simp
  next
    case False
    then have o: "reactives sys i = Some d" using that cf(2) by simp
    then have "d < r" "rid (heap sys d) = i" using old by blast+
    then show ?thesis using cf(1,3,12) by simp
  qed
  then show ?thesis using w cf(13) unfolding wellformed_def registry_wf_def by simp
qed

lemma wellformed_create:
  assumes "wellformed sys"
  shows "wellformed (snd (create uuid config sys))"
proof -
  obtain a s1 where b1: "runPluginHook ''beforeCreate'' sel_beforeCreate config sys = (a, s1)" by force
  obtain n1 where s1: "s1 = sys\<lparr>trace := trace sys @ map (HookCalled ''beforeCreate'') n1\<rparr>"
    using runPluginHook_names[OF b1] by blast
  have w1: "wellformed s1" using wellformed_only_trace[OF assms] s1 by simp
  show ?thesis
  proof (cases a)
    case (Inl e)
    then show ?thesis using b1 w1 by (simp add: create_def)
  next
    case (Inr pc)
    obtain r s2 where c1: "createReactive uuid pc s1 = (r, s2)" by force
    have w2: "wellformed s2" using wellformed_createReactive[OF w1 c1] .
    obtain c s3 where h2: "runPluginHook ''afterCreate'' sel_afterCreate (Some (heap s2 r)) s2 = (c, s3)" by force
    obtain n2 where s3: "s3 = s2\<lparr>trace := trace s2 @ map (HookCalled ''afterCreate'') n2\<rparr>"
      using runPluginHook_names[OF h2] by blast
    have "wellformed s3" using wellformed_only_trace[OF w2] s3 by simp
    moreover have "snd (create uuid config sys) = s3"
      using b1 Inr c1 h2 by (cases c) (simp_all add: create_def)
    ultimately show ?thesis by simp
  qed
qed

lemma wellformed_frame:
  assumes "wellformed s" and "frame s s'"
  shows "wellformed s'"
  using assms unfolding wellformed_def registry_wf_def frame_def by simp

lemma wellformed_set_reactive:
  "wellformed s \<Longrightarrow> set_reactive n r v s = Some (res, s') \<Longrightarrow> wellformed s'"
  using wellformed_frame frame_set_reactive by blast

lemma wellformed_subscribe: "wellformed s \<Longrightarrow> wellformed (subscribe i c s)"
  by (simp add: wellformed_def registry_wf_def subscribe_def)

lemma wellformed_removeReactive: "wellformed s \<Longrightarrow> wellformed (removeReactive i s)"
proof -
  assume w: "wellformed s"
  have nb: "next_ref (removeReactive i s) = next_ref s \<and> batchQueue (removeReactive i s) = batchQueue s"
  proof (cases "reactives s i")
    case None
    then show ?thesis by (simp add: removeReactive_def)
  next
    case (Some r)
    obtain a s1 where h: "runPluginHook ''beforeDestroy'' sel_beforeDestroy (Some (heap s r)) s = (a, s1)"
      by force
    obtain ns where "s1 = s\<lparr>trace := trace s @ map (HookCalled ''beforeDestroy'') ns\<rparr>"
      using runPluginHook_names[OF h] by blast
    then show ?thesis using Some h by (simp add: removeReactive_def)
  qed
  show ?thesis
    using w nb removeReactive_heap[of i s] removeReactive_reactives[of i s]
    unfolding wellformed_def registry_wf_def by (auto split: if_splits)
qed

lemma wellformed_ex_count: "wellformed ex_count"
  unfolding ex_count_def by (rule wellformed_create) (rule wellformed_ComponentSystem)

section \<open>The claims\<close>

subsection \<open>C1: dependents are not wired\<close>

text \<open>
  C1 says that after creating R with dependencies D every registered d in D has R's id
  among its dependents, and that removing R takes the id out again. The code does
  neither. In the example of factory.ts, \<^verbatim>\<open>doubled\<close> is created with the dependency
  \<^verbatim>\<open>count\<close>, and the dependents of \<^verbatim>\<open>count\<close> stay empty; where the caller has added
  \<^verbatim>\<open>doubled\<close> to the dependents of \<^verbatim>\<open>count\<close>, \<^verbatim>\<open>removeReactive\<close> leaves it there.
\<close>

theorem dependents_not_wired_counterexample:
  "reactives ex_doubled ''count'' = Some 0 \<and> reactives ex_doubled ''doubled'' = Some 1 \<and>
   rid (heap ex_doubled 1) = ''doubled'' \<and> dependencies (heap ex_doubled 1) = [''count''] \<and>
   ''doubled'' \<notin> set (dependents (heap ex_doubled 0)) \<and>
   reactives (removeReactive ''doubled'' ex_wired) ''count'' = Some 0 \<and>
   ''doubled'' \<in> set (dependents (heap (removeReactive ''doubled'' ex_wired) 0))"
  by code_simp

text \<open>
  C1, as the code has it: a reactive that \<^verbatim>\<open>create\<close> returns has no dependents and has
  the dependencies of the configuration the \<^verbatim>\<open>beforeCreate\<close> hooks returned; creating it
  changes the dependents of no other object; \<^verbatim>\<open>removeReactive\<close> changes the dependents of
  no object and deletes the entry of the id from the registry.
\<close>

theorem create_and_remove_leave_dependents:
  "(\<forall>r sys'. create uuid config sys = (Inr r, sys') \<longrightarrow>
      dependents (heap sys' r) = [] \<and>
      (\<exists>pc. fst (runPluginHook ''beforeCreate'' sel_beforeCreate config sys) = Inr pc \<and>
            dependencies (heap sys' r) = new_Set (or_default (cdependencies pc) [])) \<and>
      (\<forall>q. q \<noteq> r \<longrightarrow> dependents (heap sys' q) = dependents (heap sys q))) \<and>
   (\<forall>q. dependents (heap (removeReactive i sys) q) = dependents (heap sys q)) \<and>
   reactives (removeReactive i sys) = (reactives sys)(i := None)"
proof (intro conjI allI impI)
  fix r sys' assume c: "create uuid config sys = (Inr r, sys')"
  obtain pc n1 n2 s2 where p:
      "fst (runPluginHook ''beforeCreate'' sel_beforeCreate config sys) = Inr pc"
      "createReactive uuid pc (sys\<lparr>trace := trace sys @ map (HookCalled ''beforeCreate'') n1\<rparr>) = (r, s2)"
      "sys' = s2\<lparr>trace := trace s2 @ map (HookCalled ''afterCreate'') n2\<rparr>"
    using create_Inr[OF c] by blast
  note cf = createReactive_facts[OF p(2)]
  show "dependents (heap sys' r) = []" using p(3) cf(8) by simp
  show "\<exists>pc. fst (runPluginHook ''beforeCreate'' sel_beforeCreate config sys) = Inr pc \<and>
            dependencies (heap sys' r) = new_Set (or_default (cdependencies pc) [])"
    using p(1,3) cf(9) by auto
  fix q assume "q \<noteq> r"
  then show "dependents (heap sys' q) = dependents (heap sys q)" using p(3) cf(3) by simp
next
  fix q show "dependents (heap (removeReactive i sys) q) = dependents (heap sys q)"
    by (simp add: removeReactive_heap)
next
  show "reactives (removeReactive i sys) = (reactives sys)(i := None)"
    by (rule removeReactive_reactives)
qed

theorem create_and_remove_leave_dependents_witness:
  "create ''uuid-2''
      \<lparr>cid = Some ''doubled'', ctype = ''computed'', initialValue = JNum 0,
       cdependencies = Some [''count'']\<rparr> ex_count = (Inr 1, ex_doubled) \<and>
   dependents (heap ex_doubled 1) = [] \<and>
   dependents (heap ex_doubled 0) = dependents (heap ex_count 0) \<and>
   dependents (heap (removeReactive ''doubled'' ex_wired) 0) = dependents (heap ex_wired 0)"
  using create_and_remove_leave_dependents[of "''uuid-2''"
      "\<lparr>cid = Some ''doubled'', ctype = ''computed'', initialValue = JNum 0,
        cdependencies = Some [''count'']\<rparr>" ex_wired "''doubled''"]
    create_and_remove_leave_dependents[of "''uuid-2''"
      "\<lparr>cid = Some ''doubled'', ctype = ''computed'', initialValue = JNum 0,
        cdependencies = Some [''count'']\<rparr>" ex_count "''doubled''"]
    ex_doubled_create
  by simp

subsection \<open>C2: a batch commits every mutation\<close>

text \<open>
  C2 says that a batch whose operations set X to 1 and then to 2 makes one commit, of
  the value 2, and one history entry. \<^verbatim>\<open>updateReactiveValue\<close> defers a mutation only
  when the queue is not empty, and only a deferred mutation puts an entry in the queue:
  the queue stays empty and each mutation commits at once. On \<open>ex_count\<close>
  (batching and history on, \<^verbatim>\<open>count\<close> = 0) the batch returns with the value 2 after two
  assignments: the update count is 2, the log has two entries and the queue is empty.
\<close>

theorem batch_commits_every_set:
  "batchUpdates (options ex_count) \<and> enableHistory (options ex_count) \<and>
   rvalue (heap ex_count 0) = JNum 0 \<and> history ex_count ''count'' = None \<and>
   map_option (\<lambda>(res, s). (res, rvalue (heap s 0), updateCount (meta (heap s 0)),
          length (filter (is_commit 0) (trace s)), map_option length (history s ''count''), batchQueue s))
       (batch 4 [set_operation 0 (JNum 1), set_operation 0 (JNum 2)] ex_count)
     = Some (Inr (), JNum 2, 2, 2, Some 2, [])"
  by code_simp

subsection \<open>C3: a batch that rejects keeps the commits of its operations\<close>

text \<open>
  C3 says that when an operation of a batch rejects, the batch rejects with that
  failure, nothing is flushed and every value is as before the batch. The first two
  hold; the third does not, since the mutations of the other operations have been
  committed at once (see C2): on \<open>ex_count\<close> a batch of a mutation of \<^verbatim>\<open>count\<close> to 1 and an
  operation that rejects returns the rejection, and \<^verbatim>\<open>count\<close> is 1.
\<close>

theorem batch_abort_keeps_commits:
  "rvalue (heap ex_count 0) = JNum 0 \<and>
   map_option (\<lambda>(res, s). (res, rvalue (heap s 0), batchQueue s))
       (batch 4 [set_operation 0 (JNum 1), failing_operation (Error ''rejected'')] ex_count)
     = Some (Inl (Error ''rejected''), JNum 1, [])"
  by code_simp

subsection \<open>C4: a read-only reactive has no mutator\<close>




subsection \<open>C5: subscribers are never called\<close>

text \<open>
  C5 says that each commit to a reactive calls the callbacks subscribed to its id with
  the committed value. \<^verbatim>\<open>subscribe\<close> stores the callback, and no function of the class
  reads the table to call one: after the callback 7 has subscribed to \<^verbatim>\<open>count\<close>, a
  commit of 1 to \<^verbatim>\<open>count\<close> returns, the callback is still subscribed, and the trace of
  the commit holds the call of the mutator and the assignment and no call of a
  subscriber.
\<close>

theorem subscriber_not_called:
  "subscriptions ex_subscribed ''count'' = Some [7] \<and>
   map_option (\<lambda>(res, s). (res, rvalue (heap s 0), subscriptions s ''count'', trace s))
       (set_reactive 4 0 (JNum 1) ex_subscribed)
     = Some (Inr (), JNum 1, Some [7], [SetCalled 0 (JNum 1), Committed 0 (JNum 1)])"
  by code_simp

subsection \<open>C6: propagation recommits a dependent more than once\<close>

text \<open>
  C6 says that a propagation pass recommits each dependent at most once, also on a
  cycle, and never the reactive it started from. The visited set belongs to one call of
  \<^verbatim>\<open>notifyDependents\<close>, and the mutator that a pass calls starts a pass of its own with a
  new visited set. On the cycle A, B, C of \<open>ex_cycle\<close> no commit to A returns, whatever
  the fuel; on the chain A, B, C of \<open>ex_chain\<close> a commit to A returns after the mutator
  of B was called once and the mutator of C twice.
\<close>

theorem propagation_recommits_again:
  "map (\<lambda>i. map_option (\<lambda>r. (r, has_set (heap ex_cycle r), dependents (heap ex_cycle r)))
              (reactives ex_cycle i)) [''A'', ''B'', ''C'']
     = [Some (0, True, [''B'']), Some (1, True, [''C'']), Some (2, True, [''A''])] \<and>
   (\<forall>n v. set_reactive n 0 v ex_cycle = None) \<and>
   map_option (\<lambda>(res, s). (res, length (filter (is_set_call 1) (trace s)),
                               length (filter (is_set_call 2) (trace s))))
       (set_reactive 13 0 (JNum 1) ex_chain) = Some (Inr (), 1, 2)"
proof (intro conjI allI)
  show "map (\<lambda>i. map_option (\<lambda>r. (r, has_set (heap ex_cycle r), dependents (heap ex_cycle r)))
              (reactives ex_cycle i)) [''A'', ''B'', ''C'']
     = [Some (0, True, [''B'']), Some (1, True, [''C'']), Some (2, True, [''A''])]"
    by (rule ex_cycle_graph)
  show "map_option (\<lambda>(res, s). (res, length (filter (is_set_call 1) (trace s)),
                               length (filter (is_set_call 2) (trace s))))
       (set_reactive 13 0 (JNum 1) ex_chain) = Some (Inr (), 1, 2)"
    by (rule ex_chain_twice)
  fix n v show "set_reactive n 0 v ex_cycle = None" by (rule ex_cycle_diverges)
qed

subsection \<open>C7: handleError stops at the first hook that throws\<close>




subsection \<open>C8: a mutation that fails after the assignment keeps the new value\<close>

text \<open>
  C8 says that a \<^verbatim>\<open>set\<close> that fails at any stage leaves \<^verbatim>\<open>value()\<close> unchanged. The value is
  assigned in the middle of \<^verbatim>\<open>updateReactiveValue\<close> and nothing takes it back: in
  \<open>ex_audited\<close> the \<^verbatim>\<open>after\<close> handler of the middleware \<^verbatim>\<open>audit\<close> throws, the mutation of
  \<^verbatim>\<open>count\<close> from 0 to 1 rejects, and \<^verbatim>\<open>count\<close> is 1, with the update counted and the old
  value in the history log.
\<close>

theorem failing_set_keeps_new_value_counterexample:
  "rvalue (heap ex_audited 0) = JNum 0 \<and>
   map_option (\<lambda>(res, s). (res, rvalue (heap s 0), updateCount (meta (heap s 0)),
                               history s ''count''))
       (set_reactive 4 0 (JNum 1) ex_audited)
     = Some (Inl (Error ''audit is down''), JNum 1, 1, Some [JNum 0])"
  by code_simp

text \<open>
  C8, as the code has it, for a mutation that starts with an empty batch queue, stage
  by stage. The stages are the before-middleware, the \<^verbatim>\<open>beforeUpdate\<close> hooks, the
  assignment, the propagation to the dependents, the \<^verbatim>\<open>afterUpdate\<close> hooks and the
  after-middleware. When a stage throws a failure \<open>f\<close>, the mutation rejects, caught
  with \<open>f\<close> in the state \<open>s\<close> that the stage has left (\<open>rejects_at\<close>): the status is
  \<^verbatim>\<open>error\<close>, \<^verbatim>\<open>meta.error\<close> is \<open>f\<close>, the mutation rejects with what \<^verbatim>\<open>handleError\<close> throws for
  \<open>f\<close>, and the value, the update count and the history logs are those of \<open>s\<close>.

  \<^item> A failure of the before-middleware or of a \<^verbatim>\<open>beforeUpdate\<close> hook comes before the
    assignment: the objects and the history logs of \<open>s\<close> are those before the call.
  \<^item> When the hooks have returned the value \<open>pv'\<close>, it is assigned, the update is
    counted and, with history enabled, the old value is pushed on the log of the id.
  \<^item> A propagation that returns or rejects leaves the update count of the reactive
    above the count before the call, and its value \<open>pv'\<close> unless the propagation has
    assigned the reactive again; the propagation of a reactive without dependents
    returns the state after the assignment.
  \<^item> A failure of the propagation is caught in the state it has left; a failure of an
    \<^verbatim>\<open>afterUpdate\<close> hook or of the after-middleware is caught with the objects and the
    logs that the propagation has left. When no stage throws, the mutation returns.
  \<^item> When no \<^verbatim>\<open>handleError\<close> hook and no \<^verbatim>\<open>error\<close> handler throws, \<^verbatim>\<open>handleError\<close> throws
    \<open>f\<close> again and has called every hook and every \<^verbatim>\<open>error\<close> handler.
  \<^item> After every mutation that rejects, the status is \<^verbatim>\<open>error\<close> and \<^verbatim>\<open>meta.error\<close> is set.
\<close>

theorem failing_set_by_stage:
  assumes bq: "batchQueue sys = []"
  shows
   "(runMiddleware ''before'' v r (logEvent (SetCalled r v) sys) = (Inl f, s1) \<longrightarrow>
       rejects_at (set_reactive (Suc (Suc n)) r v sys) f r s1 \<and>
       heap s1 = heap sys \<and> history s1 = history sys) \<and>
    (runMiddleware ''before'' v r (logEvent (SetCalled r v) sys) = (Inr pv, s1) \<longrightarrow>
       (runPluginHook ''beforeUpdate'' (sel_beforeUpdate (rvalue (heap sys r))) pv s1 = (Inl f, s2) \<longrightarrow>
          rejects_at (set_reactive (Suc (Suc n)) r v sys) f r s2 \<and>
          heap s2 = heap sys \<and> history s2 = history sys) \<and>
       (runPluginHook ''beforeUpdate'' (sel_beforeUpdate (rvalue (heap sys r))) pv s1 = (Inr pv', s2) \<longrightarrow>
          rvalue (heap (assigned r (rvalue (heap sys r)) pv' s2) r) = pv' \<and>
          updateCount (meta (heap (assigned r (rvalue (heap sys r)) pv' s2) r))
            = Suc (updateCount (meta (heap sys r))) \<and>
          (if enableHistory (options sys)
           then historyOf (assigned r (rvalue (heap sys r)) pv' s2) (rid (heap sys r)) =
                  history_push (historySize (options sys)) (historyOf sys (rid (heap sys r)))
                    (rvalue (heap sys r))
           else history (assigned r (rvalue (heap sys r)) pv' s2) = history sys) \<and>
          (1 < n \<and> dependents (heap sys r) = [] \<longrightarrow>
             notifyDependents n r (assigned r (rvalue (heap sys r)) pv' s2)
               = Some (Inr (), assigned r (rvalue (heap sys r)) pv' s2)) \<and>
          (notifyDependents n r (assigned r (rvalue (heap sys r)) pv' s2) = Some (res, s4) \<longrightarrow>
             Suc (updateCount (meta (heap sys r))) \<le> updateCount (meta (heap s4 r)) \<and>
             ((\<forall>x. Committed r x \<notin> set (drop
                    (length (trace (assigned r (rvalue (heap sys r)) pv' s2))) (trace s4)))
                \<longrightarrow> rvalue (heap s4 r) = pv')) \<and>
          (notifyDependents n r (assigned r (rvalue (heap sys r)) pv' s2) = Some (Inl f, s4) \<longrightarrow>
             rejects_at (set_reactive (Suc (Suc n)) r v sys) f r s4) \<and>
          (notifyDependents n r (assigned r (rvalue (heap sys r)) pv' s2) = Some (Inr u, s4) \<longrightarrow>
             (runPluginHook ''afterUpdate'' sel_afterUpdate pv' s4 = (Inl f, s5) \<longrightarrow>
                rejects_at (set_reactive (Suc (Suc n)) r v sys) f r s5 \<and>
                heap s5 = heap s4 \<and> history s5 = history s4) \<and>
             (runPluginHook ''afterUpdate'' sel_afterUpdate pv' s4 = (Inr w, s5) \<longrightarrow>
                (runMiddleware ''after'' (rvalue (heap s5 r)) r s5 = (Inl f, s6) \<longrightarrow>
                   rejects_at (set_reactive (Suc (Suc n)) r v sys) f r s6 \<and>
                   heap s6 = heap s4 \<and> history s6 = history s4) \<and>
                (runMiddleware ''after'' (rvalue (heap s5 r)) r s5 = (Inr w', s6) \<longrightarrow>
                   set_reactive (Suc (Suc n)) r v sys = Some (Inr (), s6)))))) \<and>
    (handlers_return f r s \<longrightarrow>
       thrown_by_handleError f r ''update'' s = f \<and>
       handler_calls f r ''update'' s =
         map (\<lambda>p. HookCalled ''handleError'' (pname p))
           (filter (\<lambda>p. p_handleError p \<noteq> None) (map snd (plugins s))) @
         map (\<lambda>m. MiddlewareCalled ''error'' (mname m))
           (filter (\<lambda>m. m_error m \<noteq> None) (middleware s))) \<and>
    (set_reactive k r v sys = Some (Inl e, sys') \<longrightarrow>
       status (meta (heap sys' r)) = ErrorStatus \<and> error (meta (heap sys' r)) \<noteq> None)"
proof -
  let ?B = "runMiddleware ''before'' v r (logEvent (SetCalled r v) sys)"
  let ?H = "runPluginHook ''beforeUpdate'' (sel_beforeUpdate (rvalue (heap sys r))) pv s1"
  let ?A = "assigned r (rvalue (heap sys r)) pv' s2"
  let ?out = "set_reactive (Suc (Suc n)) r v sys"
  have st1: "rejects_at ?out f r s1 \<and> heap s1 = heap sys \<and> history s1 = history sys"
    if B: "?B = (Inl f, s1)"
  proof -
    have "?out = set_catch f r s1" using B by simp
    then show ?thesis
      using rejects_at_set_catch[of f r s1] runMiddleware_fields(1,2)[OF B]
      by (simp add: logEvent_def)
  qed
  have st2: "rejects_at ?out f r s2 \<and> heap s2 = heap sys \<and> history s2 = history sys"
    if B: "?B = (Inr pv, s1)" and H: "?H = (Inl f, s2)"
  proof -
    have "?out = set_catch f r s2" using set_reactive_stages[OF bq B, of n] H by simp
    then show ?thesis
      using rejects_at_set_catch[of f r s2] runMiddleware_fields(1,2)[OF B]
        runPluginHook_fields(1,2)[OF H]
      by (simp add: logEvent_def)
  qed
  have hs2: "heap s2 = heap sys" "history s2 = history sys" "options s2 = options sys"
    if B: "?B = (Inr pv, s1)" and H: "?H = (Inr pv', s2)"
    using runMiddleware_fields(1,2,4)[OF B] runPluginHook_fields(1,2,4)[OF H]
    by (simp_all add: logEvent_def)
  have stA: "rvalue (heap ?A r) = pv' \<and>
          updateCount (meta (heap ?A r)) = Suc (updateCount (meta (heap sys r))) \<and>
          (if enableHistory (options sys)
           then historyOf ?A (rid (heap sys r)) =
                  history_push (historySize (options sys)) (historyOf sys (rid (heap sys r)))
                    (rvalue (heap sys r))
           else history ?A = history sys)"
    if B: "?B = (Inr pv, s1)" and H: "?H = (Inr pv', s2)"
  proof -
    note h = hs2[OF B H]
    have "historyOf s2 = historyOf sys" using h(2) by (simp add: historyOf_def fun_eq_iff)
    then show ?thesis
      using assigned_fields(1,2)[of r "rvalue (heap sys r)" pv' s2]
        assigned_fields(3,4)[of s2 r "rvalue (heap sys r)" pv'] h by simp
  qed
  have stN: "notifyDependents n r ?A = Some (Inr (), ?A)"
    if B: "?B = (Inr pv, s1)" and H: "?H = (Inr pv', s2)"
      and n: "1 < n" and d: "dependents (heap sys r) = []"
  proof -
    have "\<exists>m. n = Suc (Suc m)" using n by presburger
    then obtain m where m: "n = Suc (Suc m)" by blast
    have "dependents (heap ?A r) = dependents (heap s2 r)"
      using frame_fields(2)[OF frame_commit[of s2 r "rvalue (heap sys r)" pv'], of r]
      by (simp add: assigned_def)
    then have dA: "dependents (heap ?A r) = []" using hs2(1)[OF B H] d by simp
    show ?thesis using m dA by simp
  qed
  have stK: "Suc (updateCount (meta (heap sys r))) \<le> updateCount (meta (heap s4 r)) \<and>
             ((\<forall>x. Committed r x \<notin> set (drop (length (trace ?A)) (trace s4)))
                \<longrightarrow> rvalue (heap s4 r) = pv')"
    if B: "?B = (Inr pv, s1)" and H: "?H = (Inr pv', s2)"
      and P: "notifyDependents n r ?A = Some (res, s4)"
  proof -
    note fr = frame_notifyDependents[OF P]
    show ?thesis
      using frame_updateCount[OF fr, of r] frame_value[OF fr, of r] stA[OF B H] by simp
  qed
  have st3: "rejects_at ?out f r s4"
    if B: "?B = (Inr pv, s1)" and H: "?H = (Inr pv', s2)"
      and P: "notifyDependents n r ?A = Some (Inl f, s4)"
  proof -
    have "?out = set_catch f r s4" using set_reactive_stages[OF bq B, of n] H P by simp
    then show ?thesis using rejects_at_set_catch[of f r s4] by simp
  qed
  have st4: "rejects_at ?out f r s5 \<and> heap s5 = heap s4 \<and> history s5 = history s4"
    if B: "?B = (Inr pv, s1)" and H: "?H = (Inr pv', s2)"
      and P: "notifyDependents n r ?A = Some (Inr u, s4)"
      and U: "runPluginHook ''afterUpdate'' sel_afterUpdate pv' s4 = (Inl f, s5)"
  proof -
    have "?out = set_catch f r s5" using set_reactive_stages[OF bq B, of n] H P U by simp
    then show ?thesis
      using rejects_at_set_catch[of f r s5] runPluginHook_fields(1,2)[OF U] by simp
  qed
  have st5: "rejects_at ?out f r s6 \<and> heap s6 = heap s4 \<and> history s6 = history s4"
    if B: "?B = (Inr pv, s1)" and H: "?H = (Inr pv', s2)"
      and P: "notifyDependents n r ?A = Some (Inr u, s4)"
      and U: "runPluginHook ''afterUpdate'' sel_afterUpdate pv' s4 = (Inr w, s5)"
      and M: "runMiddleware ''after'' (rvalue (heap s5 r)) r s5 = (Inl f, s6)"
  proof -
    have "?out = set_catch f r s6" using set_reactive_stages[OF bq B, of n] H P U M by simp
    then show ?thesis
      using rejects_at_set_catch[of f r s6] runPluginHook_fields(1,2)[OF U]
        runMiddleware_fields(1,2)[OF M] by simp
  qed
  have st6: "?out = Some (Inr (), s6)"
    if B: "?B = (Inr pv, s1)" and H: "?H = (Inr pv', s2)"
      and P: "notifyDependents n r ?A = Some (Inr u, s4)"
      and U: "runPluginHook ''afterUpdate'' sel_afterUpdate pv' s4 = (Inr w, s5)"
      and M: "runMiddleware ''after'' (rvalue (heap s5 r)) r s5 = (Inr w', s6)"
    using set_reactive_stages[OF bq B, of n] H P U M by simp
  have hr: "thrown_by_handleError f r ''update'' s = f \<and>
       handler_calls f r ''update'' s =
         map (\<lambda>p. HookCalled ''handleError'' (pname p))
           (filter (\<lambda>p. p_handleError p \<noteq> None) (map snd (plugins s))) @
         map (\<lambda>m. MiddlewareCalled ''error'' (mname m))
           (filter (\<lambda>m. m_error m \<noteq> None) (middleware s))"
    if "handlers_return f r s"
    using handlers_return_all[OF that] by simp
  have gen: "status (meta (heap sys' r)) = ErrorStatus \<and> error (meta (heap sys' r)) \<noteq> None"
    if run: "set_reactive k r v sys = Some (Inl e, sys')"
  proof -
    obtain e0 s where "handleError e0 r ''update'' s = (e, sys')"
      using set_reactive_Inl[OF run] by blast
    then have "sys' = (setErrorStatus e0 r s)\<lparr>trace := trace s @ handler_calls e0 r ''update'' s\<rparr>"
      by (simp add: handleError_eq)
    then show ?thesis by (simp add: setErrorStatus_def)
  qed
  show ?thesis
    using st1 st2 stA stN stK st3 st4 st5 st6 hr gen by blast
qed

theorem failing_set_by_stage_witness:
  "batchQueue ex_staged = [] \<and> batchQueue ex_mirrored = [] \<and>
   (\<exists>s. rejects_at (set_reactive 6 0 JNull ex_staged) (Error ''Value cannot be null'') 0 s \<and>
        heap s = heap ex_staged \<and> history s = history ex_staged \<and>
        handlers_return (Error ''Value cannot be null'') 0 s \<and>
        thrown_by_handleError (Error ''Value cannot be null'') 0 ''update'' s
          = Error ''Value cannot be null'') \<and>
   (\<exists>s. rejects_at (set_reactive 6 0 (JNum 13) ex_staged) (Error ''13 is refused'') 0 s \<and>
        heap s = heap ex_staged \<and> history s = history ex_staged) \<and>
   (\<exists>s. rejects_at (set_reactive 6 0 (JNum 1) ex_mirrored) (Error ''Value cannot be null'') 0 s \<and>
        1 \<le> updateCount (meta (heap s 0))) \<and>
   (\<exists>s. rejects_at (set_reactive 6 0 (JNum 7) ex_staged) (Error ''7 is reported'') 0 s \<and>
        rvalue (heap s 0) = JNum 7 \<and> updateCount (meta (heap s 0)) = 1 \<and>
        historyOf s ''count'' = [JNum 0]) \<and>
   (\<exists>s. rejects_at (set_reactive 6 0 (JNum 99) ex_staged) (Error ''limit exceeded'') 0 s \<and>
        rvalue (heap s 0) = JNum 99 \<and> updateCount (meta (heap s 0)) = 1 \<and>
        historyOf s ''count'' = [JNum 0]) \<and>
   batchQueue ex_plugins = [] \<and>
   (\<exists>s s'. rejects_at (set_reactive 6 0 JNull ex_plugins) (Error ''Value cannot be null'') 0 s \<and>
        set_reactive 6 0 JNull ex_plugins = Some (Inl (Error ''reporter is down''), s') \<and>
        status (meta (heap s' 0)) = ErrorStatus \<and>
        error (meta (heap s' 0)) = Some (Error ''Value cannot be null''))"
proof -
  have six: "(6::nat) = Suc (Suc 4)" by simp
  have bq: "batchQueue ex_staged = []" by code_simp
  have bqm: "batchQueue ex_mirrored = []" by code_simp
  have c0: "rvalue (heap ex_staged 0) = JNum 0" "updateCount (meta (heap ex_staged 0)) = 0"
    "rid (heap ex_staged 0) = ''count''" "enableHistory (options ex_staged)"
    "historySize (options ex_staged) = 3" "historyOf ex_staged ''count'' = []"
    "dependents (heap ex_staged 0) = []"
    by code_simp+
  have m0: "rvalue (heap ex_mirrored 0) = JNum 0" "updateCount (meta (heap ex_mirrored 0)) = 0"
    by code_simp+
  (* The before-middleware throws. *)
  define a1 where "a1 = snd (runMiddleware ''before'' JNull 0 (logEvent (SetCalled 0 JNull) ex_staged))"
  have "fst (runMiddleware ''before'' JNull 0 (logEvent (SetCalled 0 JNull) ex_staged))
          = Inl (Error ''Value cannot be null'')"
    by code_simp
  then have B1: "runMiddleware ''before'' JNull 0 (logEvent (SetCalled 0 JNull) ex_staged)
          = (Inl (Error ''Value cannot be null''), a1)"
    unfolding a1_def by (rule pair_fst)
  have hr1: "handlers_return (Error ''Value cannot be null'') 0 a1"
    unfolding a1_def by code_simp
  have w1: "rejects_at (set_reactive 6 0 JNull ex_staged) (Error ''Value cannot be null'') 0 a1 \<and>
        heap a1 = heap ex_staged \<and> history a1 = history ex_staged \<and>
        handlers_return (Error ''Value cannot be null'') 0 a1 \<and>
        thrown_by_handleError (Error ''Value cannot be null'') 0 ''update'' a1
          = Error ''Value cannot be null''"
    using failing_set_by_stage[OF bq, where v = JNull and r = 0 and n = 4
        and f = "Error ''Value cannot be null''" and ?s1.0 = a1 and s = a1] B1 hr1
    unfolding six by simp

  (* A beforeUpdate hook throws. *)
  define b1 where "b1 = snd (runMiddleware ''before'' (JNum 13) 0 (logEvent (SetCalled 0 (JNum 13)) ex_staged))"
  define b2 where "b2 = snd (runPluginHook ''beforeUpdate'' (sel_beforeUpdate (rvalue (heap ex_staged 0))) (JNum 13) b1)"
  have "fst (runMiddleware ''before'' (JNum 13) 0 (logEvent (SetCalled 0 (JNum 13)) ex_staged))
          = Inr (JNum 13)"
    by code_simp
  then have B2: "runMiddleware ''before'' (JNum 13) 0 (logEvent (SetCalled 0 (JNum 13)) ex_staged)
          = (Inr (JNum 13), b1)"
    unfolding b1_def by (rule pair_fst)
  have "fst (runPluginHook ''beforeUpdate'' (sel_beforeUpdate (rvalue (heap ex_staged 0))) (JNum 13) b1)
          = Inl (Error ''13 is refused'')"
    unfolding b1_def by code_simp
  then have H2: "runPluginHook ''beforeUpdate'' (sel_beforeUpdate (rvalue (heap ex_staged 0))) (JNum 13) b1
          = (Inl (Error ''13 is refused''), b2)"
    unfolding b2_def by (rule pair_fst)
  have w2: "rejects_at (set_reactive 6 0 (JNum 13) ex_staged) (Error ''13 is refused'') 0 b2 \<and>
        heap b2 = heap ex_staged \<and> history b2 = history ex_staged"
    using failing_set_by_stage[OF bq, where v = "JNum 13" and r = 0 and n = 4
        and f = "Error ''13 is refused''" and ?s1.0 = b1 and pv = "JNum 13" and ?s2.0 = b2] B2 H2
    unfolding six by simp
  (* The mutator of a dependent rejects. *)
  define c1 where "c1 = snd (runMiddleware ''before'' (JNum 1) 0 (logEvent (SetCalled 0 (JNum 1)) ex_mirrored))"
  define c2 where "c2 = snd (runPluginHook ''beforeUpdate'' (sel_beforeUpdate (rvalue (heap ex_mirrored 0))) (JNum 1) c1)"
  define c3 where "c3 = assigned 0 (rvalue (heap ex_mirrored 0)) (JNum 1) c2"
  have "fst (runMiddleware ''before'' (JNum 1) 0 (logEvent (SetCalled 0 (JNum 1)) ex_mirrored))
          = Inr (JNum 1)"
    by code_simp
  then have B3: "runMiddleware ''before'' (JNum 1) 0 (logEvent (SetCalled 0 (JNum 1)) ex_mirrored)
          = (Inr (JNum 1), c1)"
    unfolding c1_def by (rule pair_fst)
  have "fst (runPluginHook ''beforeUpdate'' (sel_beforeUpdate (rvalue (heap ex_mirrored 0))) (JNum 1) c1)
          = Inr (JNum 1)"
    unfolding c1_def by code_simp
  then have H3: "runPluginHook ''beforeUpdate'' (sel_beforeUpdate (rvalue (heap ex_mirrored 0))) (JNum 1) c1
          = (Inr (JNum 1), c2)"
    unfolding c2_def by (rule pair_fst)
  have "map_option fst (notifyDependents 4 0 c3) = Some (Inl (Error ''Value cannot be null''))"
    unfolding c3_def c2_def c1_def assigned_def by code_simp
  then obtain c4 where P3: "notifyDependents 4 0 c3 = Some (Inl (Error ''Value cannot be null''), c4)"
    by (auto simp: map_option_case split: option.splits)
  have k3: "rejects_at (set_reactive 6 0 (JNum 1) ex_mirrored) (Error ''Value cannot be null'') 0 c4 \<and>
        Suc (updateCount (meta (heap ex_mirrored 0))) \<le> updateCount (meta (heap c4 0))"
    using failing_set_by_stage[OF bqm, where v = "JNum 1" and r = 0 and n = 4
        and f = "Error ''Value cannot be null''" and ?s1.0 = c1 and pv = "JNum 1" and ?s2.0 = c2
        and pv' = "JNum 1" and res = "Inl (Error ''Value cannot be null'')" and ?s4.0 = c4]
      B3 H3 P3
    unfolding six c3_def[symmetric] by simp
  have w3: "rejects_at (set_reactive 6 0 (JNum 1) ex_mirrored) (Error ''Value cannot be null'') 0 c4 \<and>
        1 \<le> updateCount (meta (heap c4 0))"
    using k3 m0 by simp
  (* An afterUpdate hook throws. *)
  define d1 where "d1 = snd (runMiddleware ''before'' (JNum 7) 0 (logEvent (SetCalled 0 (JNum 7)) ex_staged))"
  define d2 where "d2 = snd (runPluginHook ''beforeUpdate'' (sel_beforeUpdate (rvalue (heap ex_staged 0))) (JNum 7) d1)"
  define d3 where "d3 = assigned 0 (rvalue (heap ex_staged 0)) (JNum 7) d2"
  define d5 where "d5 = snd (runPluginHook ''afterUpdate'' sel_afterUpdate (JNum 7) d3)"
  have "fst (runMiddleware ''before'' (JNum 7) 0 (logEvent (SetCalled 0 (JNum 7)) ex_staged))
          = Inr (JNum 7)"
    by code_simp
  then have B4: "runMiddleware ''before'' (JNum 7) 0 (logEvent (SetCalled 0 (JNum 7)) ex_staged)
          = (Inr (JNum 7), d1)"
    unfolding d1_def by (rule pair_fst)
  have "fst (runPluginHook ''beforeUpdate'' (sel_beforeUpdate (rvalue (heap ex_staged 0))) (JNum 7) d1)
          = Inr (JNum 7)"
    unfolding d1_def by code_simp
  then have H4: "runPluginHook ''beforeUpdate'' (sel_beforeUpdate (rvalue (heap ex_staged 0))) (JNum 7) d1
          = (Inr (JNum 7), d2)"
    unfolding d2_def by (rule pair_fst)
  have "fst (runPluginHook ''afterUpdate'' sel_afterUpdate (JNum 7) d3) = Inl (Error ''7 is reported'')"
    unfolding d3_def d2_def d1_def assigned_def by code_simp
  then have U4: "runPluginHook ''afterUpdate'' sel_afterUpdate (JNum 7) d3
          = (Inl (Error ''7 is reported''), d5)"
    unfolding d5_def by (rule pair_fst)
  note t4 = failing_set_by_stage[OF bq, where v = "JNum 7" and r = 0 and n = 4
        and f = "Error ''7 is reported''" and ?s1.0 = d1 and pv = "JNum 7" and ?s2.0 = d2
        and pv' = "JNum 7" and ?s4.0 = d3 and u = "()" and ?s5.0 = d5, unfolded d3_def[symmetric]]
  have P4: "notifyDependents 4 0 d3 = Some (Inr (), d3)"
    using t4 B4 H4 c0(7) by simp
  have w4: "rejects_at (set_reactive 6 0 (JNum 7) ex_staged) (Error ''7 is reported'') 0 d5 \<and>
        rvalue (heap d5 0) = JNum 7 \<and> updateCount (meta (heap d5 0)) = 1 \<and>
        historyOf d5 ''count'' = [JNum 0]"
  proof -
    have "rejects_at (set_reactive 6 0 (JNum 7) ex_staged) (Error ''7 is reported'') 0 d5 \<and>
        heap d5 = heap d3 \<and> history d5 = history d3"
      using t4 B4 H4 P4 U4 unfolding six by simp
    moreover have "rvalue (heap d3 0) = JNum 7 \<and> updateCount (meta (heap d3 0)) = 1 \<and>
        historyOf d3 ''count'' = [JNum 0]"
      using t4 B4 H4 c0 by (simp add: history_push_def)
    ultimately show ?thesis by (simp add: historyOf_def)
  qed
  (* The after-middleware throws. *)
  define e1 where "e1 = snd (runMiddleware ''before'' (JNum 99) 0 (logEvent (SetCalled 0 (JNum 99)) ex_staged))"
  define e2 where "e2 = snd (runPluginHook ''beforeUpdate'' (sel_beforeUpdate (rvalue (heap ex_staged 0))) (JNum 99) e1)"
  define e3 where "e3 = assigned 0 (rvalue (heap ex_staged 0)) (JNum 99) e2"
  define e5 where "e5 = snd (runPluginHook ''afterUpdate'' sel_afterUpdate (JNum 99) e3)"
  define e6 where "e6 = snd (runMiddleware ''after'' (rvalue (heap e5 0)) 0 e5)"
  have "fst (runMiddleware ''before'' (JNum 99) 0 (logEvent (SetCalled 0 (JNum 99)) ex_staged))
          = Inr (JNum 99)"
    by code_simp
  then have B5: "runMiddleware ''before'' (JNum 99) 0 (logEvent (SetCalled 0 (JNum 99)) ex_staged)
          = (Inr (JNum 99), e1)"
    unfolding e1_def by (rule pair_fst)
  have "fst (runPluginHook ''beforeUpdate'' (sel_beforeUpdate (rvalue (heap ex_staged 0))) (JNum 99) e1)
          = Inr (JNum 99)"
    unfolding e1_def by code_simp
  then have H5: "runPluginHook ''beforeUpdate'' (sel_beforeUpdate (rvalue (heap ex_staged 0))) (JNum 99) e1
          = (Inr (JNum 99), e2)"
    unfolding e2_def by (rule pair_fst)
  have "fst (runPluginHook ''afterUpdate'' sel_afterUpdate (JNum 99) e3) = Inr JUndefined"
    unfolding e3_def e2_def e1_def assigned_def by code_simp
  then have U5: "runPluginHook ''afterUpdate'' sel_afterUpdate (JNum 99) e3 = (Inr JUndefined, e5)"
    unfolding e5_def by (rule pair_fst)
  have "fst (runMiddleware ''after'' (rvalue (heap e5 0)) 0 e5) = Inl (Error ''limit exceeded'')"
    unfolding e5_def e3_def e2_def e1_def assigned_def by code_simp
  then have M5: "runMiddleware ''after'' (rvalue (heap e5 0)) 0 e5 = (Inl (Error ''limit exceeded''), e6)"
    unfolding e6_def by (rule pair_fst)
  note t5 = failing_set_by_stage[OF bq, where v = "JNum 99" and r = 0 and n = 4
        and f = "Error ''limit exceeded''" and ?s1.0 = e1 and pv = "JNum 99" and ?s2.0 = e2
        and pv' = "JNum 99" and ?s4.0 = e3 and u = "()" and ?s5.0 = e5 and w = JUndefined
        and ?s6.0 = e6, unfolded e3_def[symmetric]]
  have P5: "notifyDependents 4 0 e3 = Some (Inr (), e3)"
    using t5 B5 H5 c0(7) by simp
  have w5: "rejects_at (set_reactive 6 0 (JNum 99) ex_staged) (Error ''limit exceeded'') 0 e6 \<and>
        rvalue (heap e6 0) = JNum 99 \<and> updateCount (meta (heap e6 0)) = 1 \<and>
        historyOf e6 ''count'' = [JNum 0]"
  proof -
    have "rejects_at (set_reactive 6 0 (JNum 99) ex_staged) (Error ''limit exceeded'') 0 e6 \<and>
        heap e6 = heap e3 \<and> history e6 = history e3"
      using t5 B5 H5 P5 U5 M5 unfolding six by simp
    moreover have "rvalue (heap e3 0) = JNum 99 \<and> updateCount (meta (heap e3 0)) = 1 \<and>
        historyOf e3 ''count'' = [JNum 0]"
      using t5 B5 H5 c0 by (simp add: history_push_def)
    ultimately show ?thesis by (simp add: historyOf_def)
  qed
  (* A handleError hook throws. *)
  have bqp: "batchQueue ex_plugins = []" by code_simp
  define p1 where "p1 = snd (runMiddleware ''before'' JNull 0 (logEvent (SetCalled 0 JNull) ex_plugins))"
  have "fst (runMiddleware ''before'' JNull 0 (logEvent (SetCalled 0 JNull) ex_plugins))
          = Inl (Error ''Value cannot be null'')"
    by code_simp
  then have B6: "runMiddleware ''before'' JNull 0 (logEvent (SetCalled 0 JNull) ex_plugins)
          = (Inl (Error ''Value cannot be null''), p1)"
    unfolding p1_def by (rule pair_fst)
  have k6: "rejects_at (set_reactive 6 0 JNull ex_plugins) (Error ''Value cannot be null'') 0 p1"
    using failing_set_by_stage[OF bqp, where v = JNull and r = 0 and n = 4
        and f = "Error ''Value cannot be null''" and ?s1.0 = p1] B6
    unfolding six by simp
  have th6: "thrown_by_handleError (Error ''Value cannot be null'') 0 ''update'' p1
          = Error ''reporter is down''"
    unfolding p1_def by code_simp
  have "\<exists>s'. set_reactive 6 0 JNull ex_plugins = Some (Inl (Error ''reporter is down''), s') \<and>
        status (meta (heap s' 0)) = ErrorStatus \<and>
        error (meta (heap s' 0)) = Some (Error ''Value cannot be null'')"
    using k6 th6 unfolding rejects_at_def by (auto split: option.splits prod.splits sum.splits)
  then have w6: "\<exists>s s'. rejects_at (set_reactive 6 0 JNull ex_plugins) (Error ''Value cannot be null'') 0 s \<and>
        set_reactive 6 0 JNull ex_plugins = Some (Inl (Error ''reporter is down''), s') \<and>
        status (meta (heap s' 0)) = ErrorStatus \<and>
        error (meta (heap s' 0)) = Some (Error ''Value cannot be null'')"
    using k6 by blast
  show ?thesis using bq bqm bqp w1 w2 w3 w4 w5 w6 by blast
qed

subsection \<open>C9: the history log keeps the entries it had\<close>

text \<open>
  C9 says that after k successful commits to a reactive its history log holds exactly
  the min(k, N) most recent prior values. The log belongs to the id, and every
  assignment pushes the old value on it, also the assignment of a mutation that fails
  later. In \<open>ex_staged\<close> the log of \<^verbatim>\<open>count\<close> is empty and the mutation of \<^verbatim>\<open>count\<close> to 99 is
  rejected by the \<^verbatim>\<open>after\<close> handler; one commit, to 5, then leaves the log [0, 99]. In
  \<open>ex_replaced\<close> \<^verbatim>\<open>count\<close> has been created again after one commit; the first commit to
  the new reactive leaves the log [0, 5]. In both, one successful commit leaves two
  entries, with history size 3.
\<close>

theorem history_stale_entries_counterexample:
  "enableHistory (options ex_staged) \<and> historySize (options ex_staged) = 3 \<and>
   history ex_staged ''count'' = None \<and>
   map_option fst (set_reactive 6 0 (JNum 99) ex_staged) = Some (Inl (Error ''limit exceeded'')) \<and>
   map_option (\<lambda>(priors, s). (priors, history s ''count'')) (commits 6 0 [JNum 5] ex_failed)
     = Some ([JNum 99], Some [JNum 0, JNum 99]) \<and>
   enableHistory (options ex_replaced) \<and> historySize (options ex_replaced) = 3 \<and>
   reactives ex_replaced ''count'' = Some 1 \<and> updateCount (meta (heap ex_replaced 1)) = 0 \<and>
   map_option (\<lambda>(priors, s). (priors, history s ''count'')) (commits 6 1 [JNum 6] ex_replaced)
     = Some ([JNum 5], Some [JNum 0, JNum 5])"
  by code_simp

text \<open>
  C9, as the code has it: in a system with history enabled and history size N, after k
  commits to one reactive, each awaited before the next, the history log of its id is
  the log that the id had at the start with the values that were in place before each
  commit pushed on it one after the other, the oldest entry evicted when the log
  exceeds N. When N > 0 and the log at the start has at most N entries, these are the
  last N of the entries at the start followed by the k prior values; when the log is
  empty at the start, the min(k, N) most recent prior values. No mutation is pending
  at the start; the reactive is registered under its id and has a mutator, in a well
  formed registry, or its id is outside a set of ids that is closed under dependents
  and holds its dependents (the empty set, for a handle without dependents, also one
  that \<^verbatim>\<open>create\<close> has replaced in the registry).
\<close>

theorem history_after_commits:
  assumes en: "enableHistory (options sys)" and hs: "historySize (options sys) = int N"
    and bq: "batchQueue sys = []"
    and h: "(registry_wf sys \<and> reactives sys (rid (heap sys r)) = Some r \<and> has_set (heap sys r)) \<or>
            (\<exists>S. closed_under_dependents S sys \<and> set (dependents (heap sys r)) \<subseteq> S \<and>
                 rid (heap sys r) \<notin> S)"
    and run: "commits n r vs sys = Some (priors, sys')"
  shows "length priors = length vs \<and>
     historyOf sys' (rid (heap sys r)) =
       foldl (history_push (int N)) (historyOf sys (rid (heap sys r))) priors \<and>
     (0 < N \<and> length (historyOf sys (rid (heap sys r))) \<le> N \<longrightarrow>
        historyOf sys' (rid (heap sys r)) =
          drop (length (historyOf sys (rid (heap sys r)) @ priors) - N)
            (historyOf sys (rid (heap sys r)) @ priors) \<and>
        length (historyOf sys' (rid (heap sys r))) =
          min (length (historyOf sys (rid (heap sys r))) + length vs) N) \<and>
     (0 < N \<and> historyOf sys (rid (heap sys r)) = [] \<longrightarrow>
        historyOf sys' (rid (heap sys r)) = drop (length vs - N) priors \<and>
        length (historyOf sys' (rid (heap sys r))) = min (length vs) N)"
proof -
  let ?i = "rid (heap sys r)"
  have c: "historyOf sys' ?i = foldl (history_push (int N)) (historyOf sys ?i) priors \<and>
         length priors = length vs"
  proof (cases vs)
    case Nil
    then show ?thesis using run by simp
  next
    case (Cons v vs')
    obtain res s1 where st: "set_reactive n r v sys = Some (res, s1)"
      using run Cons by (auto split: option.splits)
    have res: "res = Inr ()" using run Cons st by (cases res) auto
    obtain S where S: "closed_under_dependents S sys" "set (dependents (heap sys r)) \<subseteq> S"
        "rid (heap sys r) \<notin> S"
      using h exists_closed_set[of n] bq st res by blast
    show ?thesis using commits_history[OF en hs bq S run] .
  qed
  have d: "historyOf sys' ?i = drop (length (historyOf sys ?i @ priors) - N) (historyOf sys ?i @ priors)"
    if "0 < N" "length (historyOf sys ?i) \<le> N"
    using c foldl_history_push[OF that(2,1), of priors] by simp
  have l: "length (historyOf sys' ?i) = min (length (historyOf sys ?i) + length vs) N"
    if "0 < N" "length (historyOf sys ?i) \<le> N"
    using d[OF that] c by simp
  have e: "historyOf sys' ?i = drop (length vs - N) priors \<and>
        length (historyOf sys' ?i) = min (length vs) N"
    if "0 < N" "historyOf sys ?i = []"
    using d[of] l that c by simp
  show ?thesis using c d l e by blast
qed

theorem history_after_commits_witness:
  "enableHistory (options ex_count) \<and> historySize (options ex_count) = 3 \<and>
   historyOf ex_count ''count'' = [] \<and>
   map_option (\<lambda>(priors, s). (priors, historyOf s ''count'')) ex_four_commits
     = Some ([JNum 0, JNum 1, JNum 2, JNum 3], [JNum 1, JNum 2, JNum 3]) \<and>
   enableHistory (options ex_replaced) \<and> historySize (options ex_replaced) = 3 \<and>
   reactives ex_replaced ''count'' = Some 1 \<and> dependents (heap ex_replaced 0) = [] \<and>
   historyOf ex_replaced ''count'' = [JNum 0] \<and>
   map_option (\<lambda>(priors, s). (priors, historyOf s ''count'')) ex_old_handle_commits
     = Some ([JNum 1, JNum 7, JNum 8], [JNum 1, JNum 7, JNum 8])"
proof -
  have p: "map_option fst ex_four_commits = Some [JNum 0, JNum 1, JNum 2, JNum 3]"
    by code_simp
  then obtain s where c: "commits 4 0 [JNum 1, JNum 2, JNum 3, JNum 4] ex_count
      = Some ([JNum 0, JNum 1, JNum 2, JNum 3], s)"
    unfolding ex_four_commits_def by (auto simp: map_option_case split: option.splits)
  have h: "enableHistory (options ex_count)" "historySize (options ex_count) = int 3"
    "reactives ex_count (rid (heap ex_count 0)) = Some 0" "has_set (heap ex_count 0)"
    "historyOf ex_count ''count'' = []" "rid (heap ex_count 0) = ''count''"
    by code_simp+
  have w: "registry_wf ex_count" "batchQueue ex_count = []"
    using wellformed_ex_count by (simp_all add: wellformed_def)
  have r1: "registry_wf ex_count \<and> reactives ex_count (rid (heap ex_count 0)) = Some 0 \<and>
        has_set (heap ex_count 0) \<or>
        (\<exists>S. closed_under_dependents S ex_count \<and> set (dependents (heap ex_count 0)) \<subseteq> S \<and>
             rid (heap ex_count 0) \<notin> S)"
    using w(1) h(3,4) by simp
  have pre1: "0 < (3::nat) \<and> length (historyOf ex_count (rid (heap ex_count 0))) \<le> 3"
    using h(5,6) by simp
  have "historyOf s (rid (heap ex_count 0)) =
          drop (length (historyOf ex_count (rid (heap ex_count 0)) @ [JNum 0, JNum 1, JNum 2, JNum 3]) - 3)
            (historyOf ex_count (rid (heap ex_count 0)) @ [JNum 0, JNum 1, JNum 2, JNum 3])"
    using history_after_commits[OF h(1,2) w(2) r1 c] pre1 by blast
  then have a: "historyOf s ''count'' = [JNum 1, JNum 2, JNum 3]" using h(5,6) by simp
  have q: "map_option fst ex_old_handle_commits = Some [JNum 1, JNum 7, JNum 8]"
    by code_simp
  then obtain t where d: "commits 4 0 [JNum 7, JNum 8, JNum 9] ex_replaced
      = Some ([JNum 1, JNum 7, JNum 8], t)"
    unfolding ex_old_handle_commits_def by (auto simp: map_option_case split: option.splits)
  have g: "enableHistory (options ex_replaced)" "historySize (options ex_replaced) = int 3"
    "batchQueue ex_replaced = []" "dependents (heap ex_replaced 0) = []"
    "historyOf ex_replaced ''count'' = [JNum 0]" "rid (heap ex_replaced 0) = ''count''"
    "reactives ex_replaced ''count'' = Some 1"
    by code_simp+
  have r2: "registry_wf ex_replaced \<and> reactives ex_replaced (rid (heap ex_replaced 0)) = Some 0 \<and>
        has_set (heap ex_replaced 0) \<or>
        (\<exists>S. closed_under_dependents S ex_replaced \<and> set (dependents (heap ex_replaced 0)) \<subseteq> S \<and>
             rid (heap ex_replaced 0) \<notin> S)"
    using g(4) by (auto simp: closed_under_dependents_def intro!: exI[of _ "{}"])
  have pre2: "0 < (3::nat) \<and> length (historyOf ex_replaced (rid (heap ex_replaced 0))) \<le> 3"
    using g(5,6) by simp
  have "historyOf t (rid (heap ex_replaced 0)) =
          drop (length (historyOf ex_replaced (rid (heap ex_replaced 0)) @ [JNum 1, JNum 7, JNum 8]) - 3)
            (historyOf ex_replaced (rid (heap ex_replaced 0)) @ [JNum 1, JNum 7, JNum 8])"
    using history_after_commits[OF g(1,2,3) r2 d] pre2 by blast
  then have b: "historyOf t ''count'' = [JNum 1, JNum 7, JNum 8]" using g(5,6) by simp
  show ?thesis
    using h g a b c d by (simp add: ex_four_commits_def ex_old_handle_commits_def)
qed

subsection \<open>C10: create with an id that exists\<close>

text \<open>
  C10: when \<^verbatim>\<open>create\<close> is called with an id that the registry already holds, the new
  reactive replaces the old one in the registry. No error is raised for it: the result
  of \<^verbatim>\<open>create\<close> is the one it has on an empty registry. No \<^verbatim>\<open>beforeDestroy\<close> hook is
  called, the old object is left as it is, and the history log and the subscribers of
  the id stay.
\<close>

theorem create_existing_id_replaces:
  "fst (create uuid config sys) = fst (create uuid config (sys\<lparr>reactives := Map.empty\<rparr>)) \<and>
   (\<forall>r sys' old. create uuid config sys = (Inr r, sys') \<and>
       reactives sys (rid (heap sys' r)) = Some old \<and> old < next_ref sys \<longrightarrow>
       reactives sys' (rid (heap sys' r)) = Some r \<and> r \<noteq> old \<and> heap sys' old = heap sys old \<and>
       history sys' = history sys \<and> subscriptions sys' = subscriptions sys \<and>
       (\<exists>evs. trace sys' = trace sys @ evs \<and> (\<forall>p. HookCalled ''beforeDestroy'' p \<notin> set evs)))"
proof (rule conjI)
  let ?e = "sys\<lparr>reactives := Map.empty\<rparr>"
  obtain a s1 where b1: "runPluginHook ''beforeCreate'' sel_beforeCreate config sys = (a, s1)" by force
  obtain a' s1' where b2: "runPluginHook ''beforeCreate'' sel_beforeCreate config ?e = (a', s1')" by force
  have aa: "a' = a"
    using runPluginHook_loop_result_indep[of "''beforeCreate''" sel_beforeCreate "map snd (plugins sys)" config sys ?e] b1 b2
    by (simp add: runPluginHook_def)
  obtain n1 where s1: "s1 = sys\<lparr>trace := trace sys @ map (HookCalled ''beforeCreate'') n1\<rparr>"
    using runPluginHook_loop_names[of "''beforeCreate''" sel_beforeCreate "map snd (plugins sys)" config sys] b1
    by (auto simp: runPluginHook_def)
  obtain n1' where s1': "s1' = ?e\<lparr>trace := trace ?e @ map (HookCalled ''beforeCreate'') n1'\<rparr>"
    using runPluginHook_loop_names[of "''beforeCreate''" sel_beforeCreate "map snd (plugins ?e)" config ?e] b2
    by (auto simp: runPluginHook_def)
  show "fst (create uuid config sys) = fst (create uuid config ?e)"
  proof (cases a)
    case (Inl e)
    then show ?thesis using b1 b2 aa by (simp add: create_def)
  next
    case (Inr pc)
    obtain r s2 where c1: "createReactive uuid pc s1 = (r, s2)" by force
    obtain r' s2' where c2: "createReactive uuid pc s1' = (r', s2')" by force
    have rr: "r' = r" "heap s2' r' = heap s2 r" "plugins s2' = plugins s2"
      using c1 c2 s1 s1' by (auto simp: createReactive_def registerReactive_def)
    have "fst (runPluginHook ''afterCreate'' sel_afterCreate (Some (heap s2 r)) s2)
        = fst (runPluginHook ''afterCreate'' sel_afterCreate (Some (heap s2' r')) s2')"
      using runPluginHook_loop_result_indep[of "''afterCreate''" sel_afterCreate "map snd (plugins s2)" "Some (heap s2 r)" s2 s2'] rr
      by (simp add: runPluginHook_def)
    then show ?thesis using b1 b2 aa Inr c1 c2 rr
      by (auto simp: create_def split: prod.splits sum.splits)
  qed
next
  show "\<forall>r sys' old. create uuid config sys = (Inr r, sys') \<and>
       reactives sys (rid (heap sys' r)) = Some old \<and> old < next_ref sys \<longrightarrow>
       reactives sys' (rid (heap sys' r)) = Some r \<and> r \<noteq> old \<and> heap sys' old = heap sys old \<and>
       history sys' = history sys \<and> subscriptions sys' = subscriptions sys \<and>
       (\<exists>evs. trace sys' = trace sys @ evs \<and> (\<forall>p. HookCalled ''beforeDestroy'' p \<notin> set evs))"
  proof (intro allI impI)
  fix r sys' old
  assume asm: "create uuid config sys = (Inr r, sys') \<and>
       reactives sys (rid (heap sys' r)) = Some old \<and> old < next_ref sys"
  obtain a s1 where b1: "runPluginHook ''beforeCreate'' sel_beforeCreate config sys = (a, s1)" by force
  obtain n1 where s1: "s1 = sys\<lparr>trace := trace sys @ map (HookCalled ''beforeCreate'') n1\<rparr>"
    using runPluginHook_loop_names[of "''beforeCreate''" sel_beforeCreate "map snd (plugins sys)" config sys] b1
    by (auto simp: runPluginHook_def)
  obtain pc where a: "a = Inr pc" using asm b1 by (cases a) (auto simp: create_def)
  obtain r0 s2 where c1: "createReactive uuid pc s1 = (r0, s2)" by force
  obtain c s3 where h2: "runPluginHook ''afterCreate'' sel_afterCreate (Some (heap s2 r0)) s2 = (c, s3)" by force
  obtain n2 where s3: "s3 = s2\<lparr>trace := trace s2 @ map (HookCalled ''afterCreate'') n2\<rparr>"
    using runPluginHook_loop_names[of "''afterCreate''" sel_afterCreate "map snd (plugins s2)" "Some (heap s2 r0)" s2] h2
    by (auto simp: runPluginHook_def)
  have fin: "r = r0" "sys' = s3" using asm b1 a c1 h2 by (auto simp: create_def split: sum.splits)
  note cf = createReactive_facts[OF c1]
  have tr: "trace sys' = trace sys @ (map (HookCalled ''beforeCreate'') n1 @ map (HookCalled ''afterCreate'') n2)"
    using fin s3 cf(6) s1 by simp
  have nob: "\<forall>p. HookCalled ''beforeDestroy'' p \<notin> set (map (HookCalled ''beforeCreate'') n1 @ map (HookCalled ''afterCreate'') n2)"
    by auto
  have "reactives sys' (rid (heap sys' r)) = Some r" using fin s3 cf(2) by simp
  moreover have "r \<noteq> old" using asm fin cf(1) s1 by auto
  moreover have "heap sys' old = heap sys old" using asm fin cf(1,3) s1 s3 by auto
  moreover have "history sys' = history sys" using fin s3 cf(4) s1 by simp
  moreover have "subscriptions sys' = subscriptions sys" using fin s3 cf(5) s1 by simp
  ultimately show "reactives sys' (rid (heap sys' r)) = Some r \<and> r \<noteq> old \<and> heap sys' old = heap sys old \<and>
       history sys' = history sys \<and> subscriptions sys' = subscriptions sys \<and>
       (\<exists>evs. trace sys' = trace sys @ evs \<and> (\<forall>p. HookCalled ''beforeDestroy'' p \<notin> set evs))"
    using tr nob by blast
  qed
qed

theorem create_existing_id_replaces_witness:
  "reactives ex_committed ''count'' = Some 0 \<and>
   history ex_committed ''count'' = Some [JNum 0] \<and>
   subscriptions ex_committed ''count'' = Some [7] \<and>
   fst (create ''uuid-2'' ex_recreate ex_committed) = Inr 1 \<and>
   reactives (snd (create ''uuid-2'' ex_recreate ex_committed)) ''count'' = Some 1 \<and>
   rvalue (heap (snd (create ''uuid-2'' ex_recreate ex_committed)) 0) = JNum 1 \<and>
   rvalue (heap (snd (create ''uuid-2'' ex_recreate ex_committed)) 1) = JNum 5 \<and>
   history (snd (create ''uuid-2'' ex_recreate ex_committed)) ''count'' = Some [JNum 0] \<and>
   subscriptions (snd (create ''uuid-2'' ex_recreate ex_committed)) ''count'' = Some [7]"
proof -
  let ?s = "snd (create ''uuid-2'' ex_recreate ex_committed)"
  have f: "fst (create ''uuid-2'' ex_recreate ex_committed) = Inr 1" by code_simp
  then have c: "create ''uuid-2'' ex_recreate ex_committed = (Inr 1, ?s)"
    by (simp add: prod_eq_iff)
  have h: "reactives ex_committed ''count'' = Some 0" "rid (heap ?s 1) = ''count''"
    "next_ref ex_committed = 1" "history ex_committed ''count'' = Some [JNum 0]"
    "subscriptions ex_committed ''count'' = Some [7]" "rvalue (heap ex_committed 0) = JNum 1"
    "rvalue (heap ?s 1) = JNum 5"
    by code_simp+
  have pre: "create ''uuid-2'' ex_recreate ex_committed = (Inr 1, ?s) \<and>
      reactives ex_committed (rid (heap ?s 1)) = Some 0 \<and> 0 < next_ref ex_committed"
    using c h by simp
  have "reactives ?s (rid (heap ?s 1)) = Some 1 \<and> (1::nat) \<noteq> 0 \<and>
      heap ?s 0 = heap ex_committed 0 \<and>
      history ?s = history ex_committed \<and> subscriptions ?s = subscriptions ex_committed \<and>
      (\<exists>evs. trace ?s = trace ex_committed @ evs \<and> (\<forall>p. HookCalled ''beforeDestroy'' p \<notin> set evs))"
    using create_existing_id_replaces[of "''uuid-2''" ex_recreate ex_committed] pre by blast
  then show ?thesis using h f by simp
qed

end
